theory Spec2Isabelle
  imports Complex_Main "HOL-Library.AList"
begin

section \<open>Floating-point values\<close>

text \<open>
  The thermal helper computes on C++ \<^verbatim>\<open>float\<close> values (IEEE binary32), and on one
  \<^verbatim>\<open>double\<close> (binary64). A value is NaN, an infinity, or a finite real. Arithmetic
  computes the exact result and rounds it to the format, to nearest with ties to even,
  with gradual underflow and with overflow to an infinity. The sign of zero is not
  modelled. Every comparison with NaN is false, as in the source.
\<close>

datatype float = NaN | NInf | Fin real | PInf

definition isnan :: "float \<Rightarrow> bool" where
  "isnan x = (x = NaN)"

text \<open>The infinity with the sign of a non-zero real.\<close>

definition signed_inf :: "real \<Rightarrow> float" where
  "signed_inf a = (if 0 < a then PInf else NInf)"

subsection \<open>Rounding to a binary format\<close>

definition pow2 :: "int \<Rightarrow> real" where
  "pow2 e = (if 0 \<le> e then 2 ^ nat e else 1 / 2 ^ nat (- e))"

text \<open>The nearest integer, a tie going to the even one.\<close>

definition round_even :: "real \<Rightarrow> int" where
  "round_even r =
     (if r - of_int \<lfloor>r\<rfloor> < 1 / 2 then \<lfloor>r\<rfloor>
      else if 1 / 2 < r - of_int \<lfloor>r\<rfloor> then \<lfloor>r\<rfloor> + 1
      else if even \<lfloor>r\<rfloor> then \<lfloor>r\<rfloor> else \<lfloor>r\<rfloor> + 1)"

text \<open>
  The binary exponent of a magnitude \<open>a\<close>, searched upwards from 0 when \<open>1 \<le> a\<close> and
  downwards from -1 otherwise, and kept between the least and the greatest exponent of
  the format.
\<close>

function exp_up :: "int \<Rightarrow> real \<Rightarrow> int \<Rightarrow> int" where
  "exp_up emax a e = (if e < emax \<and> \<not> a < pow2 (e + 1) then exp_up emax a (e + 1) else e)"
  by pat_completeness auto
termination
  by (relation "measure (\<lambda>(emax, a, e). nat (emax - e))") auto

function exp_down :: "int \<Rightarrow> real \<Rightarrow> int \<Rightarrow> int" where
  "exp_down emin a e = (if emin < e \<and> \<not> pow2 e \<le> a then exp_down emin a (e - 1) else e)"
  by pat_completeness auto
termination
  by (relation "measure (\<lambda>(emin, a, e). nat (e - emin))") auto

declare exp_up.simps [simp del] exp_down.simps [simp del]

definition float_exponent :: "int \<Rightarrow> int \<Rightarrow> real \<Rightarrow> int" where
  "float_exponent emin emax a =
     (if 1 \<le> a then exp_up emax a 0 else exp_down emin a (- 1))"

text \<open>
  Rounding of a real to the format with \<open>p\<close> bits of precision and exponents from
  \<open>emin\<close> to \<open>emax\<close>: the real is rounded to a multiple of the unit in the last place
  of its binade; a rounded magnitude of \<open>2 ^ (emax + 1)\<close> or more overflows.
\<close>

definition round_to :: "nat \<Rightarrow> int \<Rightarrow> int \<Rightarrow> real \<Rightarrow> float" where
  "round_to p emin emax x =
     (if x = 0 then Fin 0
      else if pow2 (emax + 1)
                \<le> \<bar>of_int (round_even
                              (x / pow2 (float_exponent emin emax \<bar>x\<bar> - (int p - 1))))
                     * pow2 (float_exponent emin emax \<bar>x\<bar> - (int p - 1))\<bar>
      then signed_inf x
      else Fin (of_int (round_even
                          (x / pow2 (float_exponent emin emax \<bar>x\<bar> - (int p - 1))))
                * pow2 (float_exponent emin emax \<bar>x\<bar> - (int p - 1))))"

definition round32 :: "real \<Rightarrow> float" where
  "round32 = round_to 24 (- 126) 127"

definition round64 :: "real \<Rightarrow> float" where
  "round64 = round_to 53 (- 1022) 1023"

text \<open>The reals that are \<^verbatim>\<open>float\<close> values.\<close>

definition is_float32 :: "real \<Rightarrow> bool" where
  "is_float32 x \<longleftrightarrow> round32 x = Fin x"

subsection \<open>Arithmetic and comparison\<close>

fun fneg :: "float \<Rightarrow> float" where
  "fneg NaN = NaN"
| "fneg NInf = PInf"
| "fneg PInf = NInf"
| "fneg (Fin a) = Fin (- a)"

fun fadd :: "float \<Rightarrow> float \<Rightarrow> float" where
  "fadd (Fin a) (Fin b) = round32 (a + b)"
| "fadd NaN y = NaN"
| "fadd x NaN = NaN"
| "fadd PInf NInf = NaN"
| "fadd NInf PInf = NaN"
| "fadd PInf y = PInf"
| "fadd x PInf = PInf"
| "fadd NInf y = NInf"
| "fadd x NInf = NInf"

text \<open>Subtraction rounds the exact difference, which is the sum with the negated value.\<close>

definition fsub :: "float \<Rightarrow> float \<Rightarrow> float" where
  "fsub x y = fadd x (fneg y)"

fun fmul :: "float \<Rightarrow> float \<Rightarrow> float" where
  "fmul (Fin a) (Fin b) = round32 (a * b)"
| "fmul NaN y = NaN"
| "fmul x NaN = NaN"
| "fmul (Fin a) PInf = (if a = 0 then NaN else signed_inf a)"
| "fmul (Fin a) NInf = (if a = 0 then NaN else signed_inf (- a))"
| "fmul PInf (Fin b) = (if b = 0 then NaN else signed_inf b)"
| "fmul NInf (Fin b) = (if b = 0 then NaN else signed_inf (- b))"
| "fmul PInf PInf = PInf"
| "fmul NInf NInf = PInf"
| "fmul PInf NInf = NInf"
| "fmul NInf PInf = NInf"

text \<open>
  Division. A zero divisor is taken to be \<^verbatim>\<open>+0.0\<close>: the only division whose divisor
  can be zero divides by a converted integer count.
\<close>

fun fdiv :: "float \<Rightarrow> float \<Rightarrow> float" where
  "fdiv (Fin a) (Fin b) =
     (if b \<noteq> 0 then round32 (a / b) else if a = 0 then NaN else signed_inf a)"
| "fdiv NaN y = NaN"
| "fdiv x NaN = NaN"
| "fdiv (Fin a) PInf = Fin 0"
| "fdiv (Fin a) NInf = Fin 0"
| "fdiv PInf (Fin b) = (if 0 \<le> b then PInf else NInf)"
| "fdiv NInf (Fin b) = (if 0 \<le> b then NInf else PInf)"
| "fdiv PInf y = NaN"
| "fdiv NInf y = NaN"

text \<open>The sum of two \<^verbatim>\<open>double\<close> values.\<close>

fun dadd :: "float \<Rightarrow> float \<Rightarrow> float" where
  "dadd (Fin a) (Fin b) = round64 (a + b)"
| "dadd NaN y = NaN"
| "dadd x NaN = NaN"
| "dadd PInf NInf = NaN"
| "dadd NInf PInf = NaN"
| "dadd PInf y = PInf"
| "dadd x PInf = PInf"
| "dadd NInf y = NInf"
| "dadd x NInf = NInf"

text \<open>The conversion of an integer to \<^verbatim>\<open>float\<close>.\<close>

definition int_to_float :: "int \<Rightarrow> float" where
  "int_to_float n = round32 (of_int n)"

fun flt :: "float \<Rightarrow> float \<Rightarrow> bool" where
  "flt (Fin a) (Fin b) = (a < b)"
| "flt NaN y = False"
| "flt x NaN = False"
| "flt PInf y = False"
| "flt x NInf = False"
| "flt NInf y = True"
| "flt x PInf = True"

fun fle :: "float \<Rightarrow> float \<Rightarrow> bool" where
  "fle (Fin a) (Fin b) = (a \<le> b)"
| "fle NaN y = False"
| "fle x NaN = False"
| "fle NInf y = True"
| "fle x PInf = True"
| "fle PInf y = False"
| "fle x NInf = False"

definition fgt :: "float \<Rightarrow> float \<Rightarrow> bool" where
  "fgt x y = flt y x"

definition fge :: "float \<Rightarrow> float \<Rightarrow> bool" where
  "fge x y = fle y x"

fun fabs :: "float \<Rightarrow> float" where
  "fabs NaN = NaN"
| "fabs NInf = PInf"
| "fabs PInf = PInf"
| "fabs (Fin a) = Fin \<bar>a\<bar>"

text \<open>\<^verbatim>\<open>std::numeric_limits<float>::max()\<close> and \<^verbatim>\<open>lowest()\<close>: finite values.\<close>

definition FLT_MAX :: float where
  "FLT_MAX = Fin 340282346638528859811704183484516925440"

definition FLT_LOWEST :: float where
  "FLT_LOWEST = Fin (- 340282346638528859811704183484516925440)"

text \<open>Conversion of a float to \<^verbatim>\<open>bool\<close>: every value but zero is true, NaN included.\<close>

definition float_to_bool :: "float \<Rightarrow> bool" where
  "float_to_bool x = (x \<noteq> Fin 0)"

section \<open>Data model\<close>

datatype ThrottlingSeverity =
  NONE | LIGHT | MODERATE | SEVERE | CRITICAL | EMERGENCY | SHUTDOWN

text \<open>\<^verbatim>\<open>static_cast<size_t>(severity)\<close>.\<close>

fun sev_index :: "ThrottlingSeverity \<Rightarrow> nat" where
  "sev_index NONE = 0"
| "sev_index LIGHT = 1"
| "sev_index MODERATE = 2"
| "sev_index SEVERE = 3"
| "sev_index CRITICAL = 4"
| "sev_index EMERGENCY = 5"
| "sev_index SHUTDOWN = 6"

text \<open>\<^verbatim>\<open>hidl_enum_range<ThrottlingSeverity>()\<close>: every severity, lowest first.\<close>

definition hidl_enum_range :: "ThrottlingSeverity list" where
  "hidl_enum_range = [NONE, LIGHT, MODERATE, SEVERE, CRITICAL, EMERGENCY, SHUTDOWN]"

text \<open>
  A \<^verbatim>\<open>ThrottlingArray\<close> is a \<^verbatim>\<open>std::array\<close> with one entry per severity; it is
  indexed by the severity itself, so no index is ever out of range. \<open>arr7\<close> writes an
  array down entry by entry.
\<close>

type_synonym 'a SeverityArray = "ThrottlingSeverity \<Rightarrow> 'a"
type_synonym ThrottlingArray = "float SeverityArray"

fun arr7 :: "'a \<Rightarrow> 'a \<Rightarrow> 'a \<Rightarrow> 'a \<Rightarrow> 'a \<Rightarrow> 'a \<Rightarrow> 'a \<Rightarrow> 'a SeverityArray" where
  "arr7 a0 a1 a2 a3 a4 a5 a6 NONE = a0"
| "arr7 a0 a1 a2 a3 a4 a5 a6 LIGHT = a1"
| "arr7 a0 a1 a2 a3 a4 a5 a6 MODERATE = a2"
| "arr7 a0 a1 a2 a3 a4 a5 a6 SEVERE = a3"
| "arr7 a0 a1 a2 a3 a4 a5 a6 CRITICAL = a4"
| "arr7 a0 a1 a2 a3 a4 a5 a6 EMERGENCY = a5"
| "arr7 a0 a1 a2 a3 a4 a5 a6 SHUTDOWN = a6"

datatype ThrottleType = PID | LIMIT | NO_THROTTLE

datatype FormulaOption = COUNT_THRESHOLD | WEIGHTED_AVG | MAXIMUM | MINIMUM

datatype TemperatureType =
  UNKNOWN | CPU | GPU | BATTERY | SKIN | USB_PORT | POWER_AMPLIFIER
  | BCL_VOLTAGE | BCL_CURRENT | BCL_PERCENTAGE | NPU

text \<open>
  A \<^verbatim>\<open>std::map\<close> keyed by name is an association list with distinct keys, iterated in
  list order.
\<close>

type_synonym 'a name_map = "(string \<times> 'a) list"

record ThrottlingInfo =
  k_po :: ThrottlingArray
  k_pu :: ThrottlingArray
  k_i :: ThrottlingArray
  k_d :: ThrottlingArray
  i_max :: ThrottlingArray
  max_alloc_power :: ThrottlingArray
  min_alloc_power :: ThrottlingArray
  s_power :: ThrottlingArray
  i_cutoff :: ThrottlingArray
  throttle_type :: "ThrottleType SeverityArray"
  cdev_request :: "string list"
  cdev_weight :: "float list"
  limit_info :: "(int SeverityArray) name_map"

record SensorInfo =
  si_type :: TemperatureType
  hot_thresholds :: ThrottlingArray
  cold_thresholds :: ThrottlingArray
  hot_hysteresis :: ThrottlingArray
  cold_hysteresis :: ThrottlingArray
  vr_threshold :: float
  multiplier :: float
  polling_delay :: int
  passive_delay :: int
  send_cb :: bool
  send_powerhint :: bool
  is_monitor :: bool
  is_virtual_sensor :: bool
  trigger_sensor :: string
  linked_sensors :: "string list"
  coefficients :: "float list"
  formula :: FormulaOption
  throttling_info :: ThrottlingInfo

record CdevInfo =
  cdev_type :: nat
  power2state :: "float list"

record SensorStatus =
  severity :: ThrottlingSeverity
  prev_hot_severity :: ThrottlingSeverity
  prev_cold_severity :: ThrottlingSeverity
  prev_hint_severity :: ThrottlingSeverity
  err_integral :: float
  prev_err :: float
  pid_request_map :: "int name_map"
  hard_limit_request_map :: "int name_map"
  last_update_time :: int

record Temperature_2_0 =
  t_type :: TemperatureType
  t_name :: string
  t_value :: float
  throttlingStatus :: ThrottlingSeverity

text \<open>
  What stops the process: an uncaught \<^verbatim>\<open>std::out_of_range\<close> of a map's \<^verbatim>\<open>at\<close>, an
  uncaught \<^verbatim>\<open>std::invalid_argument\<close> of \<^verbatim>\<open>std::stof\<close>, a \<^verbatim>\<open>LOG(FATAL)\<close>, and
  a vector read past its end.
\<close>

datatype error = OutOfRange | InvalidArgument | Fatal | OutOfBounds

section \<open>Severity classification\<close>

text \<open>
  The running state of the loop of \<^verbatim>\<open>getSeverityFromThresholds\<close>: \<^verbatim>\<open>ret_hot\<close>,
  \<^verbatim>\<open>ret_hot_hysteresis\<close>, \<^verbatim>\<open>ret_cold\<close>, \<^verbatim>\<open>ret_cold_hysteresis\<close>.
\<close>

type_synonym sev_acc =
  "ThrottlingSeverity \<times> ThrottlingSeverity \<times> ThrottlingSeverity \<times> ThrottlingSeverity"

definition severity_step ::
  "ThrottlingArray \<Rightarrow> ThrottlingArray \<Rightarrow> ThrottlingArray \<Rightarrow> ThrottlingArray \<Rightarrow> float
    \<Rightarrow> sev_acc \<Rightarrow> ThrottlingSeverity \<Rightarrow> sev_acc" where
  "severity_step hot_th cold_th hot_hy cold_hy v acc i =
     (case acc of (ret_hot, ret_hot_hysteresis, ret_cold, ret_cold_hysteresis) \<Rightarrow>
       (if \<not> isnan (hot_th i) \<and> fle (hot_th i) v \<and> ret_hot = NONE
          then i else ret_hot,
        if \<not> isnan (hot_th i) \<and> flt (fsub (hot_th i) (hot_hy i)) v
             \<and> ret_hot_hysteresis = NONE
          then i else ret_hot_hysteresis,
        if \<not> isnan (cold_th i) \<and> fge (cold_th i) v \<and> ret_cold = NONE
          then i else ret_cold,
        if \<not> isnan (cold_th i) \<and> fgt (fadd (cold_th i) (cold_hy i)) v
             \<and> ret_cold_hysteresis = NONE
          then i else ret_cold_hysteresis))"

text \<open>The loop runs from SHUTDOWN down to LIGHT; NONE is never examined.\<close>

definition severity_scan_order :: "ThrottlingSeverity list" where
  "severity_scan_order = [SHUTDOWN, EMERGENCY, CRITICAL, SEVERE, MODERATE, LIGHT]"

definition getSeverityFromThresholds ::
  "ThrottlingArray \<Rightarrow> ThrottlingArray \<Rightarrow> ThrottlingArray \<Rightarrow> ThrottlingArray
    \<Rightarrow> ThrottlingSeverity \<Rightarrow> ThrottlingSeverity \<Rightarrow> float
    \<Rightarrow> ThrottlingSeverity \<times> ThrottlingSeverity" where
  "getSeverityFromThresholds hot_th cold_th hot_hy cold_hy
       prev_hot prev_cold v =
     (case foldl (severity_step hot_th cold_th hot_hy cold_hy v)
             (NONE, NONE, NONE, NONE) severity_scan_order of
        (ret_hot, ret_hot_hysteresis, ret_cold, ret_cold_hysteresis) \<Rightarrow>
          (if sev_index ret_hot < sev_index prev_hot
             then ret_hot_hysteresis else ret_hot,
           if sev_index ret_cold < sev_index prev_cold
             then ret_cold_hysteresis else ret_cold))"

section \<open>Name-keyed maps\<close>

text \<open>\<^verbatim>\<open>m.at(k)\<close>: the value, or \<^verbatim>\<open>std::out_of_range\<close>.\<close>

definition map_at :: "'a name_map \<Rightarrow> string \<Rightarrow> error + 'a" where
  "map_at m k = (case map_of m k of None \<Rightarrow> Inl OutOfRange | Some v \<Rightarrow> Inr v)"

text \<open>\<^verbatim>\<open>m.at(k) = v\<close>: overwrites an existing entry, never adds one.\<close>

definition map_set_at :: "'a name_map \<Rightarrow> string \<Rightarrow> 'a \<Rightarrow> error + 'a name_map" where
  "map_set_at m k v =
     (case map_of m k of None \<Rightarrow> Inl OutOfRange | Some _ \<Rightarrow> Inr (AList.update k v m))"

text \<open>
  \<^verbatim>\<open>m[k]\<close> followed by a modification \<open>f\<close> of the entry: \<^verbatim>\<open>operator[]\<close> creates the
  entry from the default \<open>d\<close> when it is absent.
\<close>

definition map_index_update :: "'a \<Rightarrow> ('a \<Rightarrow> 'a) \<Rightarrow> string \<Rightarrow> 'a name_map \<Rightarrow> 'a name_map" where
  "map_index_update d f k m =
     AList.update k (f (case map_of m k of None \<Rightarrow> d | Some v \<Rightarrow> v)) m"

text \<open>A loop over a list whose body may stop the process.\<close>

fun efold :: "('a \<Rightarrow> 's \<Rightarrow> error + 's) \<Rightarrow> 'a list \<Rightarrow> 's \<Rightarrow> error + 's" where
  "efold f [] s = Inr s"
| "efold f (x # xs) s = (case f x s of Inl e \<Rightarrow> Inl e | Inr s' \<Rightarrow> efold f xs s')"

section \<open>PID power budget\<close>

text \<open>
  The target-state loop of \<^verbatim>\<open>pidPowerCalculator\<close> over the remaining severities:
  a severity that is not PID is skipped; a PID severity becomes the target, and the loop
  stops when that severity is above the sensor's current one.
\<close>

fun pid_target_loop ::
  "ThrottleType SeverityArray \<Rightarrow> ThrottlingSeverity \<Rightarrow> ThrottlingSeverity list
    \<Rightarrow> ThrottlingSeverity \<Rightarrow> ThrottlingSeverity" where
  "pid_target_loop tt cur [] target_state = target_state"
| "pid_target_loop tt cur (s # rest) target_state =
     (if tt s \<noteq> PID then pid_target_loop tt cur rest target_state
      else if sev_index cur < sev_index s then s
      else pid_target_loop tt cur rest s)"

text \<open>
  The target state is kept as the severity it was cast from. The result of
  \<^verbatim>\<open>pidPowerCalculator\<close> is the returned budget and the sensor status after the call;
  \<^verbatim>\<open>abs\<close> is the floating-point absolute value, and the elapsed time is the integer
  count of milliseconds, converted for the division.
\<close>

definition pid_target_state :: "ThrottlingInfo \<Rightarrow> ThrottlingSeverity \<Rightarrow> ThrottlingSeverity" where
  "pid_target_state ti cur = pid_target_loop (throttle_type ti) cur hidl_enum_range NONE"

definition pidPowerCalculator ::
  "Temperature_2_0 \<Rightarrow> SensorInfo \<Rightarrow> SensorStatus \<Rightarrow> int \<Rightarrow> float \<times> SensorStatus" where
  "pidPowerCalculator temp sensor_info sensor_status time_elapsed_ms =
     (let ti = throttling_info sensor_info;
          target_state = pid_target_state ti (severity sensor_status)
      in if target_state = NONE \<or> severity sensor_status = NONE then
           (FLT_MAX, sensor_status\<lparr>err_integral := Fin 0, prev_err := NaN\<rparr>)
         else
           let err = fsub (hot_thresholds sensor_info target_state) (t_value temp);
               p = fmul err (if flt err (Fin 0) then k_po ti target_state
                             else k_pu ti target_state);
               i0 = fmul (err_integral sensor_status) (k_i ti target_state);
               i_next = fadd i0 (fmul err (k_i ti target_state));
               accept = (flt err (i_cutoff ti target_state)
                         \<and> flt (fabs i_next) (i_max ti target_state));
               i = (if accept then i_next else i0);
               err_integral' = (if accept then fadd (err_integral sensor_status) err
                                else err_integral sensor_status);
               d = (if \<not> isnan (prev_err sensor_status)
                    then fdiv (fmul (k_d ti target_state)
                                 (fsub err (prev_err sensor_status)))
                           (int_to_float time_elapsed_ms)
                    else Fin 0);
               budget0 = fadd (fadd (fadd (s_power ti target_state) p) i) d;
               budget1 = (if flt budget0 (min_alloc_power ti target_state)
                          then min_alloc_power ti target_state else budget0);
               budget2 = (if fgt budget1 (max_alloc_power ti target_state)
                          then max_alloc_power ti target_state else budget1)
           in (budget2, sensor_status\<lparr>err_integral := err_integral', prev_err := err\<rparr>))"

section \<open>Power allocation\<close>

definition total_weight_of :: "ThrottlingInfo \<Rightarrow> float" where
  "total_weight_of ti =
     foldl (\<lambda>total_weight i. fadd total_weight (cdev_weight ti ! i)) (Fin 0)
       [0..<length (cdev_request ti)]"

text \<open>
  The state search \<^verbatim>\<open>for (j = 0; j < size - 1; ++j) if (budget > power2state[j]) break;\<close>
  on the table from index \<open>j\<close> on: the last index is returned without a test.
\<close>

fun power2state_search :: "float \<Rightarrow> float list \<Rightarrow> nat \<Rightarrow> nat" where
  "power2state_search cdev_power_budget [] j = j"
| "power2state_search cdev_power_budget [x] j = j"
| "power2state_search cdev_power_budget (x # y # ys) j =
     (if fgt cdev_power_budget x then j
      else power2state_search cdev_power_budget (y # ys) (Suc j))"

definition cdev_request_step ::
  "CdevInfo name_map \<Rightarrow> ThrottlingInfo \<Rightarrow> float \<Rightarrow> float \<Rightarrow> nat \<Rightarrow> SensorStatus
    \<Rightarrow> error + SensorStatus" where
  "cdev_request_step cooling_device_info_map ti total_power_budget total_weight i
       sensor_status =
     (if cdev_request ti ! i \<noteq> [] then
        (let cdev_power_budget =
               fmul total_power_budget (fdiv (cdev_weight ti ! i) total_weight)
         in case map_at cooling_device_info_map (cdev_request ti ! i) of
              Inl e \<Rightarrow> Inl e
            | Inr cdev_info \<Rightarrow>
                if power2state cdev_info = [] then Inl OutOfBounds
                else
                  (case map_set_at (pid_request_map sensor_status) (cdev_request ti ! i)
                          (int (power2state_search cdev_power_budget
                                  (power2state cdev_info) 0)) of
                     Inl e \<Rightarrow> Inl e
                   | Inr m \<Rightarrow> Inr (sensor_status\<lparr>pid_request_map := m\<rparr>)))
      else Inr sensor_status)"

text \<open>
  \<^verbatim>\<open>cdev_weight\<close> is read at every index of \<^verbatim>\<open>cdev_request\<close>; a shorter weight vector
  is a read past its end.
\<close>

definition requestCdevByPower ::
  "CdevInfo name_map \<Rightarrow> SensorStatus \<Rightarrow> SensorInfo \<Rightarrow> float
    \<Rightarrow> error + (bool \<times> SensorStatus)" where
  "requestCdevByPower cooling_device_info_map sensor_status sensor_info total_power_budget =
     (let ti = throttling_info sensor_info
      in if length (cdev_weight ti) < length (cdev_request ti) then Inl OutOfBounds
         else
           let total_weight = total_weight_of ti
           in if \<not> float_to_bool total_weight then Inr (False, sensor_status)
              else
                (case efold (cdev_request_step cooling_device_info_map ti
                               total_power_budget total_weight)
                        [0..<length (cdev_request ti)] sensor_status of
                   Inl e \<Rightarrow> Inl e
                 | Inr sensor_status' \<Rightarrow> Inr (True, sensor_status')))"

section \<open>Hard limits\<close>

text \<open>
  The scan from the current severity down to LIGHT for the first severity whose type is
  LIMIT; 0 (NONE) when there is none.
\<close>

definition hard_limit_target :: "ThrottlingInfo \<Rightarrow> ThrottlingSeverity \<Rightarrow> ThrottlingSeverity" where
  "hard_limit_target ti cur =
     (case List.find (\<lambda>i. throttle_type ti i = LIMIT)
             (filter (\<lambda>i. sev_index i \<le> sev_index cur) severity_scan_order) of
        None \<Rightarrow> NONE
      | Some i \<Rightarrow> i)"

definition requestCdevBySeverity :: "SensorStatus \<Rightarrow> SensorInfo \<Rightarrow> error + SensorStatus" where
  "requestCdevBySeverity sensor_status sensor_info =
     (let ti = throttling_info sensor_info;
          target_state = hard_limit_target ti (severity sensor_status)
      in efold
           (\<lambda>limit_info_pair st.
              case map_set_at (hard_limit_request_map st) (fst limit_info_pair)
                     (snd limit_info_pair target_state) of
                Inl e \<Rightarrow> Inl e
              | Inr m \<Rightarrow> Inr (st\<lparr>hard_limit_request_map := m\<rparr>))
           (limit_info ti) sensor_status)"

section \<open>Cooling-device update\<close>

type_synonym CdevRequestStatus = "int name_map"

definition max_state_of :: "CdevRequestStatus \<Rightarrow> int" where
  "max_state_of cdev_status =
     foldl (\<lambda>max_state sensor_request_pair.
              if max_state < snd sensor_request_pair then snd sensor_request_pair
              else max_state)
       0 cdev_status"

text \<open>
  The result is the list of writes to \<^verbatim>\<open>cur_state\<close> files, in order: the device and
  the integer whose decimal text is written.
\<close>

fun updateCoolingDevices ::
  "CdevRequestStatus name_map \<Rightarrow> string list \<Rightarrow> error + (string \<times> int) list" where
  "updateCoolingDevices cdev_status_map [] = Inr []"
| "updateCoolingDevices cdev_status_map (target_cdev # rest) =
     (case map_at cdev_status_map target_cdev of
        Inl e \<Rightarrow> Inl e
      | Inr cdev_status \<Rightarrow>
          (case updateCoolingDevices cdev_status_map rest of
             Inl e \<Rightarrow> Inl e
           | Inr writes \<Rightarrow> Inr ((target_cdev, max_state_of cdev_status) # writes)))"

section \<open>Reading sensors\<close>

text \<open>
  What \<^verbatim>\<open>readThermalFile\<close> and the parse of its text by \<^verbatim>\<open>std::stof\<close> give for a
  sensor name: the file cannot be read, it is empty, its text is not a number, or it holds a
  number.
\<close>

datatype file_data = Unreadable | Empty | Malformed | Data float

type_synonym thermal_files = "string \<Rightarrow> file_data"

text \<open>
  The body of the loop over \<^verbatim>\<open>linked_sensors\<close> and \<^verbatim>\<open>coefficients\<close> (two arrays of the
  same fixed size, here a list of pairs) from index \<open>i\<close> on, with the running \<^verbatim>\<open>mTemp\<close>.
\<close>

fun virtual_sensor_loop ::
  "thermal_files \<Rightarrow> FormulaOption \<Rightarrow> (string \<times> float) list \<Rightarrow> nat \<Rightarrow> float
    \<Rightarrow> error + float" where
  "virtual_sensor_loop files fml [] i mTemp = Inr mTemp"
| "virtual_sensor_loop files fml ((linked, coefficient) # rest) i mTemp =
     (if linked = ''NAN'' then virtual_sensor_loop files fml rest (Suc i) mTemp
      else if length linked \<le> 0 then virtual_sensor_loop files fml rest (Suc i) mTemp
      else
        (case files linked of
           Unreadable \<Rightarrow> virtual_sensor_loop files fml rest (Suc i) mTemp
         | Empty \<Rightarrow> Inl InvalidArgument
         | Malformed \<Rightarrow> Inl InvalidArgument
         | Data sensor_reading \<Rightarrow>
             if isnan coefficient then virtual_sensor_loop files fml rest (Suc i) mTemp
             else
               virtual_sensor_loop files fml rest (Suc i)
                 (case fml of
                    COUNT_THRESHOLD \<Rightarrow>
                      if (flt coefficient (Fin 0) \<and> flt sensor_reading (fneg coefficient))
                         \<or> (fge coefficient (Fin 0) \<and> fge sensor_reading coefficient)
                      then dadd mTemp (Fin 1) else mTemp
                  | WEIGHTED_AVG \<Rightarrow> dadd mTemp (fmul sensor_reading coefficient)
                  | MAXIMUM \<Rightarrow>
                      (let m0 = (if i = 0 then FLT_LOWEST else mTemp)
                       in if fgt (fmul sensor_reading coefficient) m0
                          then fmul sensor_reading coefficient else m0)
                  | MINIMUM \<Rightarrow>
                      (let m0 = (if i = 0 then FLT_MAX else mTemp)
                       in if flt (fmul sensor_reading coefficient) m0
                          then fmul sensor_reading coefficient else m0))))"

text \<open>
  \<^verbatim>\<open>checkVirtualSensor\<close>: \<open>None\<close> is the result \<^verbatim>\<open>false\<close>; otherwise the result is the
  \<^verbatim>\<open>double mTemp\<close>, which the source hands over as the text of \<^verbatim>\<open>std::to_string\<close>.
\<close>

definition checkVirtualSensor ::
  "thermal_files \<Rightarrow> SensorInfo name_map \<Rightarrow> string \<Rightarrow> error + float option" where
  "checkVirtualSensor files sensor_info_map sensor_name =
     (case map_of sensor_info_map sensor_name of
        None \<Rightarrow> Inr None
      | Some info \<Rightarrow>
          (case virtual_sensor_loop files (formula info)
                  (zip (linked_sensors info) (coefficients info)) 0 (Fin 0) of
             Inl e \<Rightarrow> Inl e
           | Inr mTemp \<Rightarrow> Inr (Some mTemp)))"

text \<open>
  \<^verbatim>\<open>std::stof\<close> of the text of a sensor file that was read and is not empty.
\<close>

fun stof_file :: "file_data \<Rightarrow> error + float" where
  "stof_file (Data x) = Inr x"
| "stof_file d = Inl InvalidArgument"

text \<open>
  \<^verbatim>\<open>std::stof\<close> of the text that \<^verbatim>\<open>std::to_string\<close> writes for a \<^verbatim>\<open>double\<close>: the value
  with six decimals, read back as the nearest \<^verbatim>\<open>float\<close>; a text beyond the range of
  \<^verbatim>\<open>float\<close> raises \<^verbatim>\<open>std::out_of_range\<close>.
\<close>

definition stof_to_string :: "float \<Rightarrow> error + float" where
  "stof_to_string d =
     (case d of
        Fin a \<Rightarrow>
          (case round32 (of_int (round_even (a * 1000000)) / 1000000) of
             Fin y \<Rightarrow> Inr (Fin y)
           | _ \<Rightarrow> Inl OutOfRange)
      | _ \<Rightarrow> Inr d)"

text \<open>
  \<^verbatim>\<open>readTemperature\<close> for a \<^verbatim>\<open>Temperature_2_0\<close>: \<open>None\<close> is the result \<^verbatim>\<open>false\<close>;
  otherwise the temperature and the (hot, cold) throttling status. The text is parsed
  after the lookup of the sensor's configuration.
\<close>

definition readTemperature ::
  "thermal_files \<Rightarrow> SensorInfo name_map \<Rightarrow> SensorStatus name_map \<Rightarrow> string \<Rightarrow> bool
    \<Rightarrow> error + (Temperature_2_0 \<times> ThrottlingSeverity \<times> ThrottlingSeverity) option" where
  "readTemperature files sensor_info_map sensor_status_map sensor_name is_virtual =
     (case (if \<not> is_virtual then
              (case files sensor_name of
                 Unreadable \<Rightarrow> Inr None
               | Empty \<Rightarrow> Inr None
               | d \<Rightarrow> Inr (Some (stof_file d)))
            else
              (case checkVirtualSensor files sensor_info_map sensor_name of
                 Inl e \<Rightarrow> Inl e
               | Inr None \<Rightarrow> Inr None
               | Inr (Some mTemp) \<Rightarrow> Inr (Some (stof_to_string mTemp)))) of
        Inl e \<Rightarrow> Inl e
      | Inr None \<Rightarrow> Inr None
      | Inr (Some parsed) \<Rightarrow>
          (case map_at sensor_info_map sensor_name of
             Inl e \<Rightarrow> Inl e
           | Inr sensor_info \<Rightarrow>
               (case parsed of
                  Inl e \<Rightarrow> Inl e
                | Inr temp \<Rightarrow>
               (let v = fmul temp (multiplier sensor_info)
                in case (if is_monitor sensor_info then
                           (case map_at sensor_status_map sensor_name of
                              Inl e \<Rightarrow> Inl e
                            | Inr st \<Rightarrow>
                                Inr (getSeverityFromThresholds
                                       (hot_thresholds sensor_info) (cold_thresholds sensor_info)
                                       (hot_hysteresis sensor_info) (cold_hysteresis sensor_info)
                                       (prev_hot_severity st) (prev_cold_severity st) v))
                         else Inr (NONE, NONE)) of
                     Inl e \<Rightarrow> Inl e
                   | Inr status \<Rightarrow>
                       Inr (Some (\<lparr>t_type = si_type sensor_info, t_name = sensor_name,
                                   t_value = v,
                                   throttlingStatus =
                                     (if sev_index (snd status) < sev_index (fst status)
                                      then fst status else snd status)\<rparr>,
                                 status))))))"

text \<open>
  The loop of \<^verbatim>\<open>fillCurrentTemperatures\<close>: \<open>None\<close> is the early \<^verbatim>\<open>return false\<close>.
\<close>

fun fill_loop ::
  "thermal_files \<Rightarrow> SensorInfo name_map \<Rightarrow> SensorStatus name_map \<Rightarrow> bool
    \<Rightarrow> TemperatureType \<Rightarrow> SensorInfo name_map \<Rightarrow> Temperature_2_0 list
    \<Rightarrow> error + Temperature_2_0 list option" where
  "fill_loop files sim ssm filterType ty [] ret = Inr (Some ret)"
| "fill_loop files sim ssm filterType ty (name_info_pair # rest) ret =
     (if filterType \<and> si_type (snd name_info_pair) \<noteq> ty
      then fill_loop files sim ssm filterType ty rest ret
      else
        (case readTemperature files sim ssm (fst name_info_pair) False of
           Inl e \<Rightarrow> Inl e
         | Inr None \<Rightarrow> Inr None
         | Inr (Some r) \<Rightarrow> fill_loop files sim ssm filterType ty rest (ret @ [fst r])))"

text \<open>
  The last argument is the caller's vector before the call; the result is the returned
  flag and the vector after the call.
\<close>

definition fillCurrentTemperatures ::
  "thermal_files \<Rightarrow> SensorInfo name_map \<Rightarrow> SensorStatus name_map \<Rightarrow> bool
    \<Rightarrow> TemperatureType \<Rightarrow> Temperature_2_0 list
    \<Rightarrow> error + (bool \<times> Temperature_2_0 list)" where
  "fillCurrentTemperatures files sim ssm filterType ty temperatures =
     (case fill_loop files sim ssm filterType ty sim [] of
        Inl e \<Rightarrow> Inl e
      | Inr None \<Rightarrow> Inr (False, temperatures)
      | Inr (Some ret) \<Rightarrow> Inr (0 < length ret, ret))"

section \<open>The helper's state and its construction\<close>

record ThermalHelper =
  cooling_device_info_map :: "CdevInfo name_map"
  sensor_info_map :: "SensorInfo name_map"
  sensor_status_map :: "SensorStatus name_map"
  cdev_status_map :: "CdevRequestStatus name_map"

definition initial_SensorStatus :: SensorStatus where
  "initial_SensorStatus =
     \<lparr>severity = NONE, prev_hot_severity = NONE, prev_cold_severity = NONE,
      prev_hint_severity = NONE, err_integral = Fin 0, prev_err = NaN,
      pid_request_map = [], hard_limit_request_map = [], last_update_time = 0\<rparr>"

text \<open>
  One round of the constructor's loop over \<^verbatim>\<open>cdev_request\<close> for the sensor \<open>name\<close>,
  on the pair of \<^verbatim>\<open>sensor_status_map_\<close> and \<^verbatim>\<open>cdev_status_map_\<close>.
\<close>

definition ctor_cdev_request ::
  "CdevInfo name_map \<Rightarrow> string \<Rightarrow> string
    \<Rightarrow> SensorStatus name_map \<times> CdevRequestStatus name_map
    \<Rightarrow> error + (SensorStatus name_map \<times> CdevRequestStatus name_map)" where
  "ctor_cdev_request cdev_info_map name cdev_request_name maps =
     (if map_of cdev_info_map cdev_request_name = None then Inl Fatal
      else
        Inr (map_index_update initial_SensorStatus
               (\<lambda>st. st\<lparr>pid_request_map :=
                          AList.update cdev_request_name 0 (pid_request_map st)\<rparr>)
               name (fst maps),
             map_index_update [] (AList.update name 0) cdev_request_name (snd maps)))"

text \<open>The same for one entry of \<^verbatim>\<open>limit_info\<close>.\<close>

definition ctor_limit_info ::
  "CdevInfo name_map \<Rightarrow> string \<Rightarrow> string \<times> int SeverityArray
    \<Rightarrow> SensorStatus name_map \<times> CdevRequestStatus name_map
    \<Rightarrow> error + (SensorStatus name_map \<times> CdevRequestStatus name_map)" where
  "ctor_limit_info cdev_info_map name limit_info_pair maps =
     (if map_of cdev_info_map (fst limit_info_pair) = None then Inl Fatal
      else
        Inr (map_index_update initial_SensorStatus
               (\<lambda>st. st\<lparr>hard_limit_request_map :=
                          AList.update (fst limit_info_pair) 0 (hard_limit_request_map st)\<rparr>)
               name (fst maps),
             map_index_update [] (AList.update name 0) (fst limit_info_pair) (snd maps)))"

definition ctor_sensor ::
  "CdevInfo name_map \<Rightarrow> string \<times> SensorInfo
    \<Rightarrow> SensorStatus name_map \<times> CdevRequestStatus name_map
    \<Rightarrow> error + (SensorStatus name_map \<times> CdevRequestStatus name_map)" where
  "ctor_sensor cdev_info_map name_status_pair maps =
     (case efold (ctor_cdev_request cdev_info_map (fst name_status_pair))
             (cdev_request (throttling_info (snd name_status_pair)))
             (AList.update (fst name_status_pair) initial_SensorStatus (fst maps), snd maps) of
        Inl e \<Rightarrow> Inl e
      | Inr maps' \<Rightarrow>
          efold (ctor_limit_info cdev_info_map (fst name_status_pair))
            (limit_info (throttling_info (snd name_status_pair))) maps')"

text \<open>
  The constructor's loop over \<^verbatim>\<open>sensor_info_map_\<close>, which fills the two status maps
  from the parsed configuration.
\<close>

definition ThermalHelper_ctor ::
  "CdevInfo name_map \<Rightarrow> SensorInfo name_map \<Rightarrow> error + ThermalHelper" where
  "ThermalHelper_ctor cdev_info_map info_map =
     (case efold (ctor_sensor cdev_info_map) info_map ([], []) of
        Inl e \<Rightarrow> Inl e
      | Inr maps \<Rightarrow>
          Inr \<lparr>cooling_device_info_map = cdev_info_map, sensor_info_map = info_map,
               sensor_status_map = fst maps, cdev_status_map = snd maps\<rparr>)"

section \<open>The control loop\<close>

text \<open>
  The aggregation loop over \<^verbatim>\<open>cdev_status_map_\<close> for the sensor \<open>name\<close>: the result is
  the map after the loop and the devices appended to \<^verbatim>\<open>cooling_devices_to_update\<close>.
\<close>

fun aggregate_loop ::
  "string \<Rightarrow> SensorStatus \<Rightarrow> CdevRequestStatus name_map
    \<Rightarrow> error + (CdevRequestStatus name_map \<times> string list)" where
  "aggregate_loop name sensor_status [] = Inr ([], [])"
| "aggregate_loop name sensor_status (cdev_request_pair # rest) =
     (case (if pid_request_map sensor_status \<noteq> []
            then map_at (pid_request_map sensor_status) (fst cdev_request_pair)
            else Inr 0) of
        Inl e \<Rightarrow> Inl e
      | Inr pid_max \<Rightarrow>
          (case (if hard_limit_request_map sensor_status \<noteq> []
                 then map_at (hard_limit_request_map sensor_status) (fst cdev_request_pair)
                 else Inr 0) of
             Inl e \<Rightarrow> Inl e
           | Inr limit_max \<Rightarrow>
               (let request_state = max pid_max limit_max
                in case map_at (snd cdev_request_pair) name of
                     Inl e \<Rightarrow> Inl e
                   | Inr cur \<Rightarrow>
                       (case aggregate_loop name sensor_status rest of
                          Inl e \<Rightarrow> Inl e
                        | Inr (rest', updated) \<Rightarrow>
                            if cur \<noteq> request_state
                            then Inr ((fst cdev_request_pair,
                                        AList.update name request_state
                                          (snd cdev_request_pair)) # rest',
                                      fst cdev_request_pair # updated)
                            else Inr (cdev_request_pair # rest', updated)))))"

text \<open>The locals of \<^verbatim>\<open>thermalWatcherCallbackFunc\<close> that live across its sensor loop.\<close>

record watcher_locals =
  temps :: "Temperature_2_0 list"
  cooling_devices_to_update :: "string list"
  min_sleep_ms :: int

text \<open>The block under the writer lock.\<close>

definition commit_status ::
  "Temperature_2_0 \<Rightarrow> ThrottlingSeverity \<times> ThrottlingSeverity \<Rightarrow> SensorStatus
    \<Rightarrow> SensorStatus" where
  "commit_status temp throtting_status st =
     (let st1 = (if fst throtting_status \<noteq> prev_hot_severity st
                 then st\<lparr>prev_hot_severity := fst throtting_status\<rparr> else st);
          st2 = (if snd throtting_status \<noteq> prev_cold_severity st1
                 then st1\<lparr>prev_cold_severity := snd throtting_status\<rparr> else st1)
      in if throttlingStatus temp \<noteq> severity st2
         then st2\<lparr>severity := throttlingStatus temp\<rparr> else st2)"

text \<open>The PID computation and the hard-limit computation of one sensor.\<close>

definition pid_stage ::
  "CdevInfo name_map \<Rightarrow> Temperature_2_0 \<Rightarrow> SensorInfo \<Rightarrow> int \<Rightarrow> SensorStatus
    \<Rightarrow> error + SensorStatus" where
  "pid_stage cdev_info_map temp sensor_info time_elapsed_ms st =
     (if pid_request_map st \<noteq> [] then
        (case pidPowerCalculator temp sensor_info st time_elapsed_ms of
           (power_budget, st1) \<Rightarrow>
             (case requestCdevByPower cdev_info_map st1 sensor_info power_budget of
                Inl e \<Rightarrow> Inl e
              | Inr r \<Rightarrow> Inr (snd r)))
      else Inr st)"

definition limit_stage :: "SensorInfo \<Rightarrow> SensorStatus \<Rightarrow> error + SensorStatus" where
  "limit_stage sensor_info st =
     (if hard_limit_request_map st \<noteq> [] then requestCdevBySeverity st sensor_info
      else Inr st)"

definition aggregate_stage ::
  "string \<Rightarrow> SensorStatus \<Rightarrow> CdevRequestStatus name_map
    \<Rightarrow> error + (CdevRequestStatus name_map \<times> string list)" where
  "aggregate_stage name st cdev_status =
     (if pid_request_map st \<noteq> [] \<or> hard_limit_request_map st \<noteq> []
      then aggregate_loop name st cdev_status
      else Inr (cdev_status, []))"

text \<open>
  The part of the loop body after a successful read: commit the severities, compute the
  requests, aggregate, vote the sleep time and stamp the sensor.
\<close>

definition process_reading ::
  "int \<Rightarrow> string \<Rightarrow> SensorInfo \<Rightarrow> SensorStatus \<Rightarrow> int \<Rightarrow> int
    \<Rightarrow> Temperature_2_0 \<Rightarrow> ThrottlingSeverity \<times> ThrottlingSeverity
    \<Rightarrow> ThermalHelper \<times> watcher_locals \<Rightarrow> error + (ThermalHelper \<times> watcher_locals)" where
  "process_reading now name sensor_info sensor_status time_elapsed_ms sleep_ms
       temp throtting_status hl =
     (let st1 = commit_status temp throtting_status sensor_status;
          changed = (throttlingStatus temp \<noteq> severity sensor_status);
          sleep_ms' = (if changed
                       then (if severity st1 \<noteq> NONE then passive_delay sensor_info
                             else polling_delay sensor_info)
                       else sleep_ms)
      in case pid_stage (cooling_device_info_map (fst hl)) temp sensor_info
                time_elapsed_ms st1 of
           Inl e \<Rightarrow> Inl e
         | Inr st2 \<Rightarrow>
             (case limit_stage sensor_info st2 of
                Inl e \<Rightarrow> Inl e
              | Inr st3 \<Rightarrow>
                  (case aggregate_stage name st3 (cdev_status_map (fst hl)) of
                     Inl e \<Rightarrow> Inl e
                   | Inr agg \<Rightarrow>
                       Inr ((fst hl)
                              \<lparr>sensor_status_map :=
                                 AList.update name (st3\<lparr>last_update_time := now\<rparr>)
                                   (sensor_status_map (fst hl)),
                               cdev_status_map := fst agg\<rparr>,
                            (snd hl)
                              \<lparr>temps := (if changed then temps (snd hl) @ [temp]
                                         else temps (snd hl)),
                               cooling_devices_to_update :=
                                 cooling_devices_to_update (snd hl) @ snd agg,
                               min_sleep_ms :=
                                 (if sleep_ms' < min_sleep_ms (snd hl) then sleep_ms'
                                  else min_sleep_ms (snd hl))\<rparr>))))"

text \<open>
  One round of the loop over \<^verbatim>\<open>sensor_status_map_\<close>, for the sensor \<open>name\<close>. A round
  that the source leaves with \<^verbatim>\<open>continue\<close> returns the state it has reached. The call
  of \<^verbatim>\<open>readTemperatureThreshold\<close> only fails for a name that is not in
  \<^verbatim>\<open>sensor_info_map_\<close>, which the lookup at the head of the round has excluded.
\<close>

definition watcher_sensor_step ::
  "thermal_files \<Rightarrow> int \<Rightarrow> string set \<Rightarrow> string
    \<Rightarrow> ThermalHelper \<times> watcher_locals \<Rightarrow> error + (ThermalHelper \<times> watcher_locals)" where
  "watcher_sensor_step files now uevent_sensors name hl =
     (case map_at (sensor_status_map (fst hl)) name of
        Inl e \<Rightarrow> Inl e
      | Inr sensor_status \<Rightarrow>
     (case map_at (sensor_info_map (fst hl)) name of
        Inl e \<Rightarrow> Inl e
      | Inr sensor_info \<Rightarrow>
          if \<not> is_monitor sensor_info then Inr hl
          else
            (let is_virtual = is_virtual_sensor sensor_info;
                 uevent_sensor_name =
                   (if is_virtual then trigger_sensor sensor_info else name);
                 time_elapsed_ms = now - last_update_time sensor_status;
                 sleep_ms = (if severity sensor_status \<noteq> NONE
                             then passive_delay sensor_info
                             else polling_delay sensor_info)
             in if time_elapsed_ms < sleep_ms
                   \<and> (uevent_sensors = {} \<or> uevent_sensor_name \<notin> uevent_sensors)
                then
                  Inr (fst hl,
                       (snd hl)\<lparr>min_sleep_ms :=
                                  (if sleep_ms - time_elapsed_ms < min_sleep_ms (snd hl)
                                   then sleep_ms - time_elapsed_ms
                                   else min_sleep_ms (snd hl))\<rparr>)
                else
                  (case readTemperature files (sensor_info_map (fst hl))
                          (sensor_status_map (fst hl)) name is_virtual of
                     Inl e \<Rightarrow> Inl e
                   | Inr None \<Rightarrow> Inr hl
                   | Inr (Some r) \<Rightarrow>
                       process_reading now name sensor_info sensor_status
                         time_elapsed_ms sleep_ms (fst r) (snd r) hl))))"

text \<open>
  \<^verbatim>\<open>thermalWatcherCallbackFunc\<close>, with \<^verbatim>\<open>kMinPollIntervalMs\<close> and the clock reading
  \<open>now\<close> as parameters. The result is the state after the call, the writes to cooling
  devices, the temperatures whose severity changed (the notifications and power hints sent
  for them are not modelled) and the returned sleep time.
\<close>

definition thermalWatcherCallbackFunc ::
  "int \<Rightarrow> thermal_files \<Rightarrow> int \<Rightarrow> string set \<Rightarrow> ThermalHelper
    \<Rightarrow> error + (ThermalHelper \<times> (string \<times> int) list \<times> Temperature_2_0 list \<times> int)" where
  "thermalWatcherCallbackFunc kMinPollIntervalMs files now uevent_sensors helper =
     (case efold (watcher_sensor_step files now uevent_sensors)
             (map fst (sensor_status_map helper))
             (helper, \<lparr>temps = [], cooling_devices_to_update = [],
                       min_sleep_ms = 2147483647\<rparr>) of
        Inl e \<Rightarrow> Inl e
      | Inr hl \<Rightarrow>
          (case (if cooling_devices_to_update (snd hl) \<noteq> []
                 then updateCoolingDevices (cdev_status_map (fst hl))
                        (cooling_devices_to_update (snd hl))
                 else Inr []) of
             Inl e \<Rightarrow> Inl e
           | Inr writes \<Rightarrow>
               Inr (fst hl, writes, temps (snd hl),
                    if min_sleep_ms (snd hl) < kMinPollIntervalMs then kMinPollIntervalMs
                    else min_sleep_ms (snd hl))))"

section \<open>Notions used in the statements\<close>

text \<open>The highest severity whose throttle type is PID; NONE when there is none.\<close>

definition highest_pid_severity :: "ThrottlingInfo \<Rightarrow> ThrottlingSeverity" where
  "highest_pid_severity ti =
     (case List.find (\<lambda>s. throttle_type ti s = PID) (rev hidl_enum_range) of
        None \<Rightarrow> NONE
      | Some s \<Rightarrow> s)"



text \<open>The first severity of a list that satisfies a test; NONE when there is none.\<close>

definition pick :: "(ThrottlingSeverity \<Rightarrow> bool) \<Rightarrow> ThrottlingSeverity list \<Rightarrow> ThrottlingSeverity" where
  "pick P xs = (case List.find P xs of None \<Rightarrow> NONE | Some x \<Rightarrow> x)"

text \<open>The sensors a snapshot query selects: all of them, or those of the given type.\<close>

definition selected_sensors ::
  "bool \<Rightarrow> TemperatureType \<Rightarrow> SensorInfo name_map \<Rightarrow> SensorInfo name_map" where
  "selected_sensors filterType ty sim =
     filter (\<lambda>p. \<not> (filterType \<and> si_type (snd p) \<noteq> ty)) sim"

text \<open>The cooling devices a sensor references, and those any sensor references.\<close>

definition sensor_cdevs :: "SensorInfo \<Rightarrow> string list" where
  "sensor_cdevs info =
     cdev_request (throttling_info info) @ map fst (limit_info (throttling_info info))"

definition referenced_cdevs :: "SensorInfo name_map \<Rightarrow> string list" where
  "referenced_cdevs sim = concat (map (\<lambda>p. sensor_cdevs (snd p)) sim)"

text \<open>The keys of the request maps of a sensor, and of the status map of a device.\<close>

definition pid_keys :: "SensorStatus name_map \<Rightarrow> string \<Rightarrow> string set" where
  "pid_keys ssm n =
     (case map_of ssm n of None \<Rightarrow> {} | Some st \<Rightarrow> fst ` set (pid_request_map st))"

definition limit_keys :: "SensorStatus name_map \<Rightarrow> string \<Rightarrow> string set" where
  "limit_keys ssm n =
     (case map_of ssm n of None \<Rightarrow> {} | Some st \<Rightarrow> fst ` set (hard_limit_request_map st))"

definition request_keys :: "CdevRequestStatus name_map \<Rightarrow> string \<Rightarrow> string set" where
  "request_keys csm c = (case map_of csm c of None \<Rightarrow> {} | Some r \<Rightarrow> fst ` set r)"

text \<open>
  What the constructor's loop has built after the sensors \<open>seen\<close>: the keys of every map
  follow the configuration.
\<close>

definition ctor_inv ::
  "SensorInfo name_map \<Rightarrow> SensorStatus name_map \<times> CdevRequestStatus name_map \<Rightarrow> bool" where
  "ctor_inv seen maps \<longleftrightarrow>
     fst ` set (fst maps) = fst ` set seen
     \<and> (\<forall>n info. (n, info) \<in> set seen \<longrightarrow>
            pid_keys (fst maps) n = set (cdev_request (throttling_info info))
            \<and> limit_keys (fst maps) n = fst ` set (limit_info (throttling_info info)))
     \<and> distinct (map fst (snd maps))
     \<and> fst ` set (snd maps) = set (referenced_cdevs seen)
     \<and> (\<forall>c. request_keys (snd maps) c
              = {n. \<exists>info. (n, info) \<in> set seen \<and> c \<in> set (sensor_cdevs info)})"

text \<open>
  The request a sensor holds for a cooling device: the larger of its PID request and its
  hard-limit request, an absent entry counting as 0.
\<close>

definition request_or_zero :: "int name_map \<Rightarrow> string \<Rightarrow> int" where
  "request_or_zero m c = (case map_of m c of None \<Rightarrow> 0 | Some v \<Rightarrow> v)"

definition sensor_request :: "SensorStatus \<Rightarrow> string \<Rightarrow> int" where
  "sensor_request st c =
     max (request_or_zero (pid_request_map st) c)
         (request_or_zero (hard_limit_request_map st) c)"

text \<open>The maximum over all sensors of their requests for a cooling device, floored at 0.\<close>

definition cdev_aggregate :: "SensorStatus name_map \<Rightarrow> string \<Rightarrow> int" where
  "cdev_aggregate ssm c = foldl max 0 (map (\<lambda>p. sensor_request (snd p) c) ssm)"

text \<open>The entry of a sensor in the request status of a cooling device.\<close>

definition request_entry :: "CdevRequestStatus name_map \<Rightarrow> string \<Rightarrow> string \<Rightarrow> int option" where
  "request_entry csm c n = (case map_of csm c of None \<Rightarrow> None | Some req \<Rightarrow> map_of req n)"

text \<open>
  The state of the two status maps between iterations of the control loop: keys are
  unique, every entry of a device's request status is the request its sensor holds, and a
  device lists every sensor that holds a request for it.
\<close>

definition status_inv :: "ThermalHelper \<Rightarrow> bool" where
  "status_inv h \<longleftrightarrow>
     distinct (map fst (sensor_status_map h))
     \<and> distinct (map fst (cdev_status_map h))
     \<and> (\<forall>c req. map_of (cdev_status_map h) c = Some req \<longrightarrow> distinct (map fst req))
     \<and> (\<forall>c n v. request_entry (cdev_status_map h) c n = Some v \<longrightarrow>
            (\<exists>st. map_of (sensor_status_map h) n = Some st \<and> v = sensor_request st c))
     \<and> (\<forall>n st c. map_of (sensor_status_map h) n = Some st \<longrightarrow>
            c \<in> fst ` set (pid_request_map st) \<union> fst ` set (hard_limit_request_map st) \<longrightarrow>
            request_entry (cdev_status_map h) c n \<noteq> None)"

text \<open>Freshly built status maps: unique keys, and every request is 0.\<close>

definition fresh_maps ::
  "SensorStatus name_map \<times> CdevRequestStatus name_map \<Rightarrow> bool" where
  "fresh_maps maps \<longleftrightarrow>
     distinct (map fst (fst maps))
     \<and> (\<forall>p \<in> set (fst maps).
           (\<forall>q \<in> set (pid_request_map (snd p)). snd q = 0)
           \<and> (\<forall>q \<in> set (hard_limit_request_map (snd p)). snd q = 0))
     \<and> (\<forall>p \<in> set (snd maps). distinct (map fst (snd p)) \<and> (\<forall>q \<in> set (snd p). snd q = 0))"

section \<open>Example configurations\<close>

text \<open>
  A skin sensor with hot thresholds 45, 55, ..., 95, PID at LIGHT and MODERATE, a feed-forward
  power of 1000, both proportional gains 20 and no integral or derivative gain, driving the
  cooling device \<open>cpu\<close> with full weight.
\<close>

definition ex_throttling :: ThrottlingInfo where
  "ex_throttling =
     \<lparr>k_po = (\<lambda>_. Fin 20), k_pu = (\<lambda>_. Fin 20), k_i = (\<lambda>_. Fin 0), k_d = (\<lambda>_. Fin 0),
      i_max = (\<lambda>_. Fin 0), max_alloc_power = (\<lambda>_. Fin 3000),
      min_alloc_power = (\<lambda>_. Fin 0), s_power = (\<lambda>_. Fin 1000), i_cutoff = (\<lambda>_. Fin 0),
      throttle_type = arr7 NO_THROTTLE PID PID NO_THROTTLE NO_THROTTLE NO_THROTTLE NO_THROTTLE,
      cdev_request = [''cpu''], cdev_weight = [Fin 1], limit_info = []\<rparr>"

definition ex_sensor :: SensorInfo where
  "ex_sensor =
     \<lparr>si_type = SKIN,
      hot_thresholds = arr7 NaN (Fin 45) (Fin 55) (Fin 65) (Fin 75) (Fin 85) (Fin 95),
      cold_thresholds = (\<lambda>_. NaN), hot_hysteresis = (\<lambda>_. Fin 0),
      cold_hysteresis = (\<lambda>_. Fin 0), vr_threshold = NaN, multiplier = Fin 1,
      polling_delay = 5000, passive_delay = 1000, send_cb = True, send_powerhint = False,
      is_monitor = True, is_virtual_sensor = False, trigger_sensor = [],
      linked_sensors = [], coefficients = [], formula = COUNT_THRESHOLD,
      throttling_info = ex_throttling\<rparr>"

text \<open>The same sensor with the over-temperature gain \<open>k_po\<close> left at 0.\<close>

definition ex_sensor_kpu_only :: SensorInfo where
  "ex_sensor_kpu_only =
     ex_sensor\<lparr>throttling_info := ex_throttling\<lparr>k_po := (\<lambda>_. Fin 0)\<rparr>\<rparr>"

text \<open>The same sensor with a zero weight on its only cooling device.\<close>

definition ex_sensor_zero_weight :: SensorInfo where
  "ex_sensor_zero_weight =
     ex_sensor\<lparr>throttling_info := ex_throttling\<lparr>cdev_weight := [Fin 0]\<rparr>\<rparr>"

definition ex_status :: SensorStatus where
  "ex_status =
     initial_SensorStatus\<lparr>severity := MODERATE, pid_request_map := [(''cpu'', 0)]\<rparr>"

definition ex_temp :: Temperature_2_0 where
  "ex_temp =
     \<lparr>t_type = SKIN, t_name = ''skin'', t_value = Fin 60, throttlingStatus = MODERATE\<rparr>"

definition ex_cdevs :: "CdevInfo name_map" where
  "ex_cdevs =
     [(''cpu'', \<lparr>cdev_type = 0, power2state = [Fin 1500, Fin 1000, Fin 500, Fin 0]\<rparr>)]"

text \<open>Threshold arrays: hot 45, 55, ..., 95; cold 0, -10, -20; a hysteresis of 3 at MODERATE.\<close>

definition ex_hot :: ThrottlingArray where
  "ex_hot = arr7 NaN (Fin 45) (Fin 55) (Fin 65) (Fin 75) (Fin 85) (Fin 95)"

definition ex_cold :: ThrottlingArray where
  "ex_cold = arr7 NaN (Fin 0) (Fin (- 10)) (Fin (- 20)) NaN NaN NaN"

definition ex_hyst :: ThrottlingArray where
  "ex_hyst = arr7 (Fin 0) (Fin 0) (Fin 3) (Fin 0) (Fin 0) (Fin 0) (Fin 0)"






text \<open>
  Sysfs contents: \<open>s1\<close> reads 40, \<open>s2\<close> reads 90, \<open>neg\<close> reads -5, every other file
  cannot be read.
\<close>

definition ex_files :: thermal_files where
  "ex_files n =
     (if n = ''s1'' then Data (Fin 40)
      else if n = ''s2'' then Data (Fin 90)
      else if n = ''neg'' then Data (Fin (- 5))
      else Unreadable)"

text \<open>
  Virtual sensors with formula MAXIMUM: over \<open>s1\<close> and \<open>s2\<close> with coefficients 1 and 0.5;
  over a first entry that is the literal \<open>NAN\<close> or a file that cannot be read, followed
  by \<open>neg\<close> with coefficient 1.
\<close>

definition ex_virtual :: "string list \<Rightarrow> float list \<Rightarrow> SensorInfo" where
  "ex_virtual linked coeffs =
     ex_sensor\<lparr>is_virtual_sensor := True, trigger_sensor := ''s1'',
                linked_sensors := linked, coefficients := coeffs, formula := MAXIMUM\<rparr>"

definition ex_virtual_map :: "SensorInfo name_map" where
  "ex_virtual_map =
     [(''vmax'', ex_virtual [''s1'', ''s2''] [Fin 1, Fin (1 / 2)]),
      (''vnan'', ex_virtual [''NAN'', ''neg''] [Fin 1, Fin 1]),
      (''vgone'', ex_virtual [''gone'', ''neg''] [Fin 1, Fin 1])]"

text \<open>
  Two configured physical sensors that are not monitored: \<open>s1\<close>, whose file reads 40, and
  \<open>gone\<close>, whose file cannot be read.
\<close>

definition ex_snapshot_map :: "SensorInfo name_map" where
  "ex_snapshot_map =
     [(''s1'', ex_sensor\<lparr>is_monitor := False\<rparr>),
      (''gone'', ex_sensor\<lparr>is_monitor := False\<rparr>)]"

text \<open>
  Two monitored sensors that share the cooling device \<open>cpu\<close>. Sensor \<open>a\<close> drives it by
  PID at LIGHT and MODERATE and by hard limits from SEVERE on; sensor \<open>b\<close> only by hard
  limits. The hard limit at a severity is the index of the severity.
\<close>

definition ex_limits :: "int SeverityArray" where
  "ex_limits = arr7 0 1 2 3 4 5 6"

definition ex_sensor_a :: SensorInfo where
  "ex_sensor_a =
     ex_sensor\<lparr>throttling_info :=
       ex_throttling
         \<lparr>throttle_type := arr7 NO_THROTTLE PID PID LIMIT LIMIT LIMIT LIMIT,
          limit_info := [(''cpu'', ex_limits)]\<rparr>\<rparr>"

definition ex_sensor_b :: SensorInfo where
  "ex_sensor_b =
     ex_sensor\<lparr>throttling_info :=
       ex_throttling
         \<lparr>throttle_type := arr7 NO_THROTTLE LIMIT LIMIT LIMIT LIMIT LIMIT LIMIT,
          cdev_request := [], cdev_weight := [],
          limit_info := [(''cpu'', ex_limits)]\<rparr>\<rparr>"

definition ex_sensors :: "SensorInfo name_map" where
  "ex_sensors = [(''a'', ex_sensor_a), (''b'', ex_sensor_b)]"

text \<open>The state the constructor builds for the two sensors.\<close>

definition ex_helper_0 :: ThermalHelper where
  "ex_helper_0 =
     \<lparr>cooling_device_info_map = ex_cdevs, sensor_info_map = ex_sensors,
      sensor_status_map =
        [(''a'', initial_SensorStatus\<lparr>pid_request_map := [(''cpu'', 0)],
                                      hard_limit_request_map := [(''cpu'', 0)]\<rparr>),
         (''b'', initial_SensorStatus\<lparr>hard_limit_request_map := [(''cpu'', 0)]\<rparr>)],
      cdev_status_map = [(''cpu'', [(''a'', 0), (''b'', 0)])]\<rparr>"

text \<open>
  Two iterations of the control loop on that state. In the first, at time 10000, \<open>a\<close>
  reads 70 and \<open>b\<close> reads 50; in the second, at time 10500 after a uevent of \<open>b\<close>,
  \<open>b\<close> reads 60 and \<open>a\<close> is not due.
\<close>

definition ex_files_1 :: thermal_files where
  "ex_files_1 n =
     (if n = ''a'' then Data (Fin 70) else if n = ''b'' then Data (Fin 50) else Unreadable)"

definition ex_files_2 :: thermal_files where
  "ex_files_2 n =
     (if n = ''a'' then Data (Fin 70) else if n = ''b'' then Data (Fin 60) else Unreadable)"

definition ex_status_a :: SensorStatus where
  "ex_status_a =
     \<lparr>severity = SEVERE, prev_hot_severity = SEVERE, prev_cold_severity = NONE,
      prev_hint_severity = NONE, err_integral = Fin 0, prev_err = Fin (- 15),
      pid_request_map = [(''cpu'', 2)], hard_limit_request_map = [(''cpu'', 3)],
      last_update_time = 10000\<rparr>"

definition ex_status_b :: "ThrottlingSeverity \<Rightarrow> int \<Rightarrow> int \<Rightarrow> SensorStatus" where
  "ex_status_b sev limit stamp =
     \<lparr>severity = sev, prev_hot_severity = sev, prev_cold_severity = NONE,
      prev_hint_severity = NONE, err_integral = Fin 0, prev_err = NaN,
      pid_request_map = [], hard_limit_request_map = [(''cpu'', limit)],
      last_update_time = stamp\<rparr>"

definition ex_helper_1 :: ThermalHelper where
  "ex_helper_1 =
     \<lparr>cooling_device_info_map = ex_cdevs, sensor_info_map = ex_sensors,
      sensor_status_map = [(''a'', ex_status_a), (''b'', ex_status_b LIGHT 1 10000)],
      cdev_status_map = [(''cpu'', [(''a'', 3), (''b'', 1)])]\<rparr>"

definition ex_helper_2 :: ThermalHelper where
  "ex_helper_2 =
     \<lparr>cooling_device_info_map = ex_cdevs, sensor_info_map = ex_sensors,
      sensor_status_map = [(''a'', ex_status_a), (''b'', ex_status_b MODERATE 2 10500)],
      cdev_status_map = [(''cpu'', [(''a'', 3), (''b'', 2)])]\<rparr>"

definition ex_reading :: "string \<Rightarrow> real \<Rightarrow> ThrottlingSeverity \<Rightarrow> Temperature_2_0" where
  "ex_reading n v sev =
     \<lparr>t_type = SKIN, t_name = n, t_value = Fin v, throttlingStatus = sev\<rparr>"

section \<open>Properties of rounding\<close>

text \<open>The equations that evaluate a rounding on a concrete value.\<close>

lemmas fl_eval = round32_def round64_def round_to_def float_exponent_def exp_up.simps
  exp_down.simps pow2_def round_even_def signed_inf_def

lemma round_to_zero [simp]: "round_to p emin emax 0 = Fin 0"
  by (simp add: round_to_def)

lemma round32_zero [simp]: "round32 0 = Fin 0"
  by (simp add: round32_def)

lemma round64_zero [simp]: "round64 0 = Fin 0"
  by (simp add: round64_def)

lemma round_to_not_NaN [simp]: "round_to p emin emax x \<noteq> NaN"
  by (simp add: round_to_def signed_inf_def)

lemma round32_not_NaN [simp]: "round32 x \<noteq> NaN"
  by (simp add: round32_def)

lemma pow2_powi: "pow2 e = 2 powi e"
  by (simp add: pow2_def power_int_def inverse_eq_divide power_one_over)

lemma pow2_pos [simp]: "0 < pow2 e"
  by (simp add: pow2_powi)

lemma pow2_mono: "a \<le> b \<Longrightarrow> pow2 a \<le> pow2 b"
  by (simp add: pow2_powi power_int_increasing)

lemma pow2_add: "pow2 (a + b) = pow2 a * pow2 b"
  by (simp add: pow2_powi power_int_add)

lemma round_even_near: "\<bar>of_int (round_even r) - r\<bar> \<le> 1 / 2"
proof -
  have "of_int \<lfloor>r\<rfloor> \<le> r" "r < of_int \<lfloor>r\<rfloor> + 1" by linarith+
  then show ?thesis
    unfolding round_even_def by (simp add: abs_le_iff)
qed

lemma exp_up_unfold_step:
  "e < emax \<and> \<not> a < pow2 (e + 1) \<Longrightarrow> exp_up emax a e = exp_up emax a (e + 1)"
  by (subst exp_up.simps) simp

lemma exp_up_unfold_stop:
  "\<not> (e < emax \<and> \<not> a < pow2 (e + 1)) \<Longrightarrow> exp_up emax a e = e"
  by (subst exp_up.simps) auto

lemma exp_down_unfold_step:
  "emin < e \<and> \<not> pow2 e \<le> a \<Longrightarrow> exp_down emin a e = exp_down emin a (e - 1)"
  by (subst exp_down.simps) simp

lemma exp_down_unfold_stop:
  "\<not> (emin < e \<and> \<not> pow2 e \<le> a) \<Longrightarrow> exp_down emin a e = e"
  by (subst exp_down.simps) auto

lemma exp_up_le: "e \<le> emax \<Longrightarrow> exp_up emax a e \<le> emax"
proof (induction emax a e rule: exp_up.induct)
  case (1 emax a e)
  show ?case
  proof (cases "e < emax \<and> \<not> a < pow2 (e + 1)")
    case True
    with 1 have "exp_up emax a (e + 1) \<le> emax" by simp
    with exp_up_unfold_step [OF True] show ?thesis by simp
  next
    case False
    with exp_up_unfold_stop [OF False] 1 show ?thesis by simp
  qed
qed

lemma exp_up_lt: "exp_up emax a e < emax \<Longrightarrow> a < pow2 (exp_up emax a e + 1)"
proof (induction emax a e rule: exp_up.induct)
  case (1 emax a e)
  show ?case
  proof (cases "e < emax \<and> \<not> a < pow2 (e + 1)")
    case True
    with 1 exp_up_unfold_step [OF True] show ?thesis by simp
  next
    case False
    with exp_up_unfold_stop [OF False] 1(2) show ?thesis by simp
  qed
qed

lemma exp_up_lower: "pow2 e \<le> a \<Longrightarrow> pow2 (exp_up emax a e) \<le> a"
proof (induction emax a e rule: exp_up.induct)
  case (1 emax a e)
  show ?case
  proof (cases "e < emax \<and> \<not> a < pow2 (e + 1)")
    case True
    with 1 exp_up_unfold_step [OF True] show ?thesis by simp
  next
    case False
    with exp_up_unfold_stop [OF False] 1(2) show ?thesis by simp
  qed
qed

lemma exp_down_le: "exp_down emin a e \<le> e"
proof (induction emin a e rule: exp_down.induct)
  case (1 emin a e)
  show ?case
  proof (cases "emin < e \<and> \<not> pow2 e \<le> a")
    case True
    with 1 have "exp_down emin a (e - 1) \<le> e - 1" by simp
    with exp_down_unfold_step [OF True] show ?thesis by simp
  next
    case False
    with exp_down_unfold_stop [OF False] show ?thesis by simp
  qed
qed

lemma exp_down_upper: "a < pow2 (e + 1) \<Longrightarrow> a < pow2 (exp_down emin a e + 1)"
proof (induction emin a e rule: exp_down.induct)
  case (1 emin a e)
  show ?case
  proof (cases "emin < e \<and> \<not> pow2 e \<le> a")
    case True
    with 1 exp_down_unfold_step [OF True] show ?thesis by simp
  next
    case False
    with exp_down_unfold_stop [OF False] 1(2) show ?thesis by simp
  qed
qed

lemma float_exponent_le: "0 \<le> emax \<Longrightarrow> float_exponent emin emax a \<le> emax"
  using exp_up_le [of 0 emax a] exp_down_le [of emin a "- 1"]
  by (simp add: float_exponent_def)

lemma float_exponent_upper:
  assumes "0 \<le> emax" "float_exponent emin emax a < emax"
  shows "a < pow2 (float_exponent emin emax a + 1)"
proof (cases "1 \<le> a")
  case True
  with assms exp_up_lt [of emax a 0] show ?thesis by (simp add: float_exponent_def)
next
  case False
  then have "a < pow2 (- 1 + 1)" by (simp add: pow2_def)
  from exp_down_upper [OF this] False show ?thesis by (simp add: float_exponent_def)
qed

lemma float_exponent_lower:
  assumes "1 \<le> a"
  shows "pow2 (float_exponent emin emax a) \<le> a"
proof -
  from assms have "pow2 0 \<le> a" by (simp add: pow2_def)
  from exp_up_lower [OF this] assms show ?thesis by (simp add: float_exponent_def)
qed


lemma round32_unfold:
  "x \<noteq> 0 \<Longrightarrow>
   round32 x =
     (if pow2 128 \<le> \<bar>of_int (round_even (x / pow2 (float_exponent (- 126) 127 \<bar>x\<bar> - 23)))
                       * pow2 (float_exponent (- 126) 127 \<bar>x\<bar> - 23)\<bar>
      then signed_inf x
      else Fin (of_int (round_even (x / pow2 (float_exponent (- 126) 127 \<bar>x\<bar> - 23)))
                * pow2 (float_exponent (- 126) 127 \<bar>x\<bar> - 23)))"
  by (simp add: round32_def round_to_def)

lemma round32_nonzero:
  assumes "1 \<le> \<bar>x\<bar>"
  shows "round32 x \<noteq> Fin 0"
proof -
  define E where "E = float_exponent (- 126) 127 \<bar>x\<bar>"
  define u where "u = pow2 (E - 23)"
  define n where "n = round_even (x / u)"
  have u: "0 < u" by (simp add: u_def)
  have "u \<le> pow2 E" unfolding u_def by (rule pow2_mono) simp
  also have "pow2 E \<le> \<bar>x\<bar>" unfolding E_def by (rule float_exponent_lower [OF assms])
  finally have "1 \<le> \<bar>x\<bar> / u" using u by simp
  then have r: "1 \<le> \<bar>x / u\<bar>" using u by simp
  have "\<bar>of_int n - x / u\<bar> \<le> 1 / 2" unfolding n_def by (rule round_even_near)
  have "n \<noteq> 0"
  proof
    assume "n = 0"
    with \<open>\<bar>of_int n - x / u\<bar> \<le> 1 / 2\<close> have "\<bar>x / u\<bar> \<le> 1 / 2" by simp
    with r show False by linarith
  qed
  with u have nz: "of_int n * u \<noteq> 0" by simp
  from assms have "x \<noteq> 0" by auto
  from round32_unfold [OF this] nz show ?thesis
    by (simp add: E_def u_def n_def signed_inf_def)
qed

lemma round_even_bound:
  assumes "\<bar>r\<bar> \<le> of_int k + 1 / 4"
  shows "\<bar>round_even r\<bar> \<le> k"
proof -
  have "\<bar>of_int (round_even r) - r\<bar> \<le> 1 / 2" by (rule round_even_near)
  with assms have "\<bar>of_int (round_even r) :: real\<bar> \<le> of_int k + 3 / 4" by linarith
  then have "(of_int \<bar>round_even r\<bar> :: real) < of_int (k + 1)" by simp
  then have "\<bar>round_even r\<bar> < k + 1" by (simp only: of_int_less_iff)
  then show ?thesis by simp
qed

lemma round32_finite:
  assumes "\<bar>x\<bar> \<le> 340282346638528859811704183484516925440 + 2 ^ 102"
  shows "\<exists>r. round32 x = Fin r"
proof (cases "x = 0")
  case True
  then show ?thesis by simp
next
  case False
  define E where "E = float_exponent (- 126) 127 \<bar>x\<bar>"
  define u where "u = pow2 (E - 23)"
  define n where "n = round_even (x / u)"
  have u: "0 < u" by (simp add: u_def)
  have E: "E \<le> 127" unfolding E_def by (rule float_exponent_le) simp
  have p: "pow2 (E + 1) = 2 ^ 24 * u"
  proof -
    have "E + 1 = 24 + (E - 23)" by simp
    then have "pow2 (E + 1) = pow2 (24 + (E - 23))" by (rule arg_cong)
    also have "\<dots> = pow2 24 * pow2 (E - 23)" by (rule pow2_add)
    finally show ?thesis by (simp add: u_def pow2_def [of 24])
  qed
  have "\<bar>of_int n * u\<bar> < pow2 128"
  proof (cases "E < 127")
    case True
    then have "\<bar>x\<bar> < pow2 (E + 1)"
      unfolding E_def by (intro float_exponent_upper) simp_all
    also have "pow2 (E + 1) = 2 ^ 24 * u" by (rule p)
    finally have "\<bar>x / u\<bar> < 16777216" using u by (simp add: pos_divide_less_eq)
    then have "\<bar>x / u\<bar> \<le> 16777216 + 1 / 4" by linarith
    then have "\<bar>x / u\<bar> \<le> of_int 16777216 + 1 / 4" by (simp only: of_int_numeral)
    then have "\<bar>n\<bar> \<le> 16777216" unfolding n_def by (rule round_even_bound)
    then have "(of_int \<bar>n\<bar> :: real) \<le> of_int 16777216" by (simp only: of_int_le_iff)
    then have "\<bar>of_int n :: real\<bar> \<le> 2 ^ 24" by simp
    with u have "\<bar>of_int n * u\<bar> \<le> 2 ^ 24 * u"
      by (simp add: abs_mult mult_right_mono)
    also have "2 ^ 24 * u = pow2 (E + 1)" by (rule p [symmetric])
    also have "pow2 (E + 1) \<le> pow2 127" using True by (intro pow2_mono) simp
    also have "pow2 127 < pow2 128" by (simp add: pow2_def)
    finally show ?thesis .
  next
    case False
    with E have "E = 127" by simp
    then have u104: "u = 2 ^ 104" by (simp add: u_def pow2_def)
    have a1: "\<bar>x\<bar> \<le> (16777215 + 1 / 4) * 2 ^ 104" using assms by simp
    have a2: "\<bar>x / u\<bar> = \<bar>x\<bar> / 2 ^ 104" by (simp add: u104)
    have "\<bar>x\<bar> / 2 ^ 104 \<le> 16777215 + 1 / 4"
      by (subst pos_divide_le_eq) (simp, rule a1)
    then have "\<bar>x / u\<bar> \<le> 16777215 + 1 / 4" by (simp only: a2)
    then have "\<bar>x / u\<bar> \<le> of_int 16777215 + 1 / 4" by (simp only: of_int_numeral)
    then have "\<bar>n\<bar> \<le> 16777215" unfolding n_def by (rule round_even_bound)
    then have "(of_int \<bar>n\<bar> :: real) \<le> of_int 16777215" by (simp only: of_int_le_iff)
    then have "\<bar>of_int n :: real\<bar> \<le> 2 ^ 24 - 1" by simp
    then have "\<bar>of_int n * u\<bar> \<le> (2 ^ 24 - 1) * 2 ^ 104"
      by (simp add: abs_mult u104)
    also have "\<dots> < pow2 128" by (simp add: pow2_def)
    finally show ?thesis .
  qed
  with round32_unfold [OF \<open>x \<noteq> 0\<close>] show ?thesis
    by (simp add: E_def u_def n_def)
qed

lemma is_float32_bound:
  assumes "is_float32 a"
  shows "\<bar>a\<bar> \<le> 340282346638528859811704183484516925440"
proof (cases "a = 0")
  case True
  then show ?thesis by simp
next
  case False
  define E where "E = float_exponent (- 126) 127 \<bar>a\<bar>"
  define u where "u = pow2 (E - 23)"
  define n where "n = round_even (a / u)"
  have u: "0 < u" by (simp add: u_def)
  have E: "E \<le> 127" unfolding E_def by (rule float_exponent_le) simp
  from assms round32_unfold [OF False]
  have fin: "\<bar>of_int n * u\<bar> < pow2 128" and a: "a = of_int n * u"
    by (simp_all add: is_float32_def E_def u_def n_def signed_inf_def split: if_splits)
  show ?thesis
  proof (cases "E < 127")
    case True
    then have "\<bar>a\<bar> < pow2 (E + 1)"
      unfolding E_def by (intro float_exponent_upper) simp_all
    also have "pow2 (E + 1) \<le> pow2 127" using True by (intro pow2_mono) simp
    also have "pow2 127 \<le> 340282346638528859811704183484516925440" by (simp add: pow2_def)
    finally show ?thesis by simp
  next
    case False
    with E have "E = 127" by simp
    then have u104: "u = 2 ^ 104" by (simp add: u_def pow2_def)
    from fin have "\<bar>of_int n :: real\<bar> * 2 ^ 104 < 2 ^ 24 * 2 ^ 104"
      by (simp add: abs_mult u104 pow2_def)
    then have "(of_int \<bar>n\<bar> :: real) < of_int (2 ^ 24)" by simp
    then have "\<bar>n\<bar> < 2 ^ 24" by (simp only: of_int_less_iff)
    then have "\<bar>n\<bar> \<le> 2 ^ 24 - 1" by simp
    then have "(of_int \<bar>n\<bar> :: real) \<le> of_int (2 ^ 24 - 1)" by (simp only: of_int_le_iff)
    then have "\<bar>of_int n :: real\<bar> \<le> 2 ^ 24 - 1" by simp
    then have "\<bar>of_int n * u\<bar> \<le> (2 ^ 24 - 1) * 2 ^ 104"
      by (simp add: abs_mult u104)
    with a show ?thesis by simp
  qed
qed

lemma fsub_finite:
  assumes "is_float32 a" "\<bar>c\<bar> \<le> 2 ^ 102"
  shows "\<exists>r. fsub (Fin c) (Fin a) = Fin r"
proof -
  from is_float32_bound [OF assms(1)] assms(2)
  have "\<bar>c + - a\<bar> \<le> 340282346638528859811704183484516925440 + 2 ^ 102" by linarith
  from round32_finite [OF this] show ?thesis by (simp add: fsub_def)
qed






section \<open>Power allocation with a zero total weight\<close>

text \<open>
  Claim C7. When the weights of a sensor's cooling devices sum to zero,
  \<^verbatim>\<open>requestCdevByPower\<close> returns false and the sensor's status, with its
  \<^verbatim>\<open>pid_request_map\<close>, is exactly what it was, whatever the power budget.
\<close>

theorem requestCdevByPower_zero_weight:
  assumes "length (cdev_weight (throttling_info sensor_info))
             = length (cdev_request (throttling_info sensor_info))"
    and "total_weight_of (throttling_info sensor_info) = Fin 0"
  shows "requestCdevByPower cdev_info_map sensor_status sensor_info budget
           = Inr (False, sensor_status)"
  using assms by (simp add: requestCdevByPower_def float_to_bool_def Let_def)

lemma ex_zero_weight_total: "total_weight_of (throttling_info ex_sensor_zero_weight) = Fin 0"
  by (simp add: total_weight_of_def ex_sensor_zero_weight_def ex_sensor_def ex_throttling_def)

theorem requestCdevByPower_zero_weight_witness:
  "requestCdevByPower ex_cdevs ex_status ex_sensor_zero_weight (Fin 900)
     = Inr (False, ex_status)"
  by (rule requestCdevByPower_zero_weight [OF _ ex_zero_weight_total])
     (simp add: ex_sensor_zero_weight_def ex_sensor_def ex_throttling_def)

section \<open>The PID target state\<close>

lemma find_snoc:
  "List.find P (xs @ [x]) =
     (case List.find P xs of None \<Rightarrow> (if P x then Some x else None) | Some y \<Rightarrow> Some y)"
  by (induction xs) simp_all

lemma pid_target_loop_no_break:
  assumes "\<forall>s \<in> set xs. tt s = PID \<longrightarrow> \<not> sev_index cur < sev_index s"
  shows "pid_target_loop tt cur xs t =
           (case List.find (\<lambda>s. tt s = PID) (rev xs) of None \<Rightarrow> t | Some s \<Rightarrow> s)"
  using assms
proof (induction xs arbitrary: t)
  case Nil
  then show ?case by simp
next
  case (Cons x xs)
  then show ?case
    by (simp add: find_snoc split: option.splits)
qed

lemma pid_target_state_highest:
  assumes "\<forall>s. throttle_type ti s = PID \<longrightarrow> \<not> sev_index cur < sev_index s"
  shows "pid_target_state ti cur = highest_pid_severity ti"
  unfolding pid_target_state_def highest_pid_severity_def
  by (rule pid_target_loop_no_break) (use assms in blast)

lemma pid_no_target:
  assumes "pid_target_state (throttling_info sensor_info) (severity st) = NONE
             \<or> severity st = NONE"
  shows "pidPowerCalculator temp sensor_info st elapsed
           = (FLT_MAX, st\<lparr>err_integral := Fin 0, prev_err := NaN\<rparr>)"
  using assms by (auto simp add: pidPowerCalculator_def Let_def)

text \<open>
  Claim C2, as amended. For a sensor whose severity is above NONE and above every severity
  with throttle type PID, the target state of \<^verbatim>\<open>pidPowerCalculator\<close> is the highest
  PID severity. Only when that is NONE (no severity above NONE is PID) does the call reset
  \<^verbatim>\<open>err_integral\<close> to 0 and \<^verbatim>\<open>prev_err\<close> to NaN and return the largest finite float.
  Otherwise it runs the PID computation against the highest PID severity \<open>t\<close>: the error
  is \<open>hot_thresholds[t] - value\<close>; the budget is \<open>s_power[t] + p + i + d\<close> clamped to
  \<open>min_alloc_power[t]\<close> and \<open>max_alloc_power[t]\<close>, with the proportional term on the
  gain \<open>k_po[t]\<close> or \<open>k_pu[t]\<close>, the integral term guarded by \<open>i_cutoff[t]\<close> and
  \<open>i_max[t]\<close>, and the derivative term on \<open>k_d[t]\<close>; \<^verbatim>\<open>err_integral\<close> grows by the error
  when the guard accepts, and \<^verbatim>\<open>prev_err\<close> becomes the error. No other field changes.
\<close>

theorem pid_target_above_every_pid_severity:
  assumes "severity st \<noteq> NONE"
    and "\<forall>s. throttle_type (throttling_info sensor_info) s = PID
            \<longrightarrow> sev_index s < sev_index (severity st)"
  shows "pid_target_state (throttling_info sensor_info) (severity st)
           = highest_pid_severity (throttling_info sensor_info)
         \<and> (if highest_pid_severity (throttling_info sensor_info) = NONE
            then pidPowerCalculator temp sensor_info st elapsed
                   = (FLT_MAX, st\<lparr>err_integral := Fin 0, prev_err := NaN\<rparr>)
            else
              (let ti = throttling_info sensor_info;
                   t = highest_pid_severity ti;
                   err = fsub (hot_thresholds sensor_info t) (t_value temp);
                   p = fmul err (if flt err (Fin 0) then k_po ti t else k_pu ti t);
                   i0 = fmul (err_integral st) (k_i ti t);
                   i_next = fadd i0 (fmul err (k_i ti t));
                   accept = (flt err (i_cutoff ti t) \<and> flt (fabs i_next) (i_max ti t));
                   i = (if accept then i_next else i0);
                   d = (if prev_err st = NaN then Fin 0
                        else fdiv (fmul (k_d ti t) (fsub err (prev_err st)))
                               (int_to_float elapsed));
                   budget = fadd (fadd (fadd (s_power ti t) p) i) d;
                   floored = (if flt budget (min_alloc_power ti t)
                              then min_alloc_power ti t else budget);
                   capped = (if fgt floored (max_alloc_power ti t)
                             then max_alloc_power ti t else floored)
               in pidPowerCalculator temp sensor_info st elapsed
                    = (capped,
                       st\<lparr>err_integral := (if accept then fadd (err_integral st) err
                                            else err_integral st),
                          prev_err := err\<rparr>)))"
proof -
  have "\<forall>s. throttle_type (throttling_info sensor_info) s = PID
          \<longrightarrow> \<not> sev_index (severity st) < sev_index s"
    using assms(2) by (meson less_asym)
  then have target: "pid_target_state (throttling_info sensor_info) (severity st)
      = highest_pid_severity (throttling_info sensor_info)"
    by (rule pid_target_state_highest)
  show ?thesis
  proof (cases "highest_pid_severity (throttling_info sensor_info) = NONE")
    case True
    with target show ?thesis by (simp add: pid_no_target)
  next
    case False
    with target assms(1) show ?thesis
      by (simp add: pidPowerCalculator_def Let_def isnan_def)
  qed
qed

lemma ex_pid_below_severe:
  "\<forall>s. throttle_type (throttling_info ex_sensor) s = PID
      \<longrightarrow> sev_index s < sev_index (severity (ex_status\<lparr>severity := SEVERE\<rparr>))"
proof
  fix s
  show "throttle_type (throttling_info ex_sensor) s = PID
      \<longrightarrow> sev_index s < sev_index (severity (ex_status\<lparr>severity := SEVERE\<rparr>))"
    by (cases s) (simp_all add: ex_sensor_def ex_throttling_def)
qed

lemma ex_highest_pid: "highest_pid_severity (throttling_info ex_sensor) = MODERATE"
  by (simp add: highest_pid_severity_def hidl_enum_range_def ex_sensor_def ex_throttling_def)

theorem pid_target_above_every_pid_severity_witness:
  "pid_target_state (throttling_info ex_sensor) SEVERE = MODERATE
   \<and> pidPowerCalculator ex_temp ex_sensor (ex_status\<lparr>severity := SEVERE\<rparr>) 1000
       = (Fin 900, ex_status\<lparr>severity := SEVERE, err_integral := Fin 0,
                              prev_err := Fin (- 5)\<rparr>)"
proof -
  have sev: "severity (ex_status\<lparr>severity := SEVERE\<rparr>) \<noteq> NONE" by simp
  from pid_target_above_every_pid_severity [OF sev ex_pid_below_severe, of ex_temp 1000]
  have "pid_target_state (throttling_info ex_sensor) SEVERE = MODERATE"
    and run: "let ti = throttling_info ex_sensor;
         err = fsub (hot_thresholds ex_sensor MODERATE) (t_value ex_temp);
         p = fmul err (if flt err (Fin 0) then k_po ti MODERATE else k_pu ti MODERATE);
         i0 = fmul (err_integral (ex_status\<lparr>severity := SEVERE\<rparr>)) (k_i ti MODERATE);
         i_next = fadd i0 (fmul err (k_i ti MODERATE));
         accept = (flt err (i_cutoff ti MODERATE)
                   \<and> flt (fabs i_next) (i_max ti MODERATE));
         i = (if accept then i_next else i0);
         d = (if prev_err (ex_status\<lparr>severity := SEVERE\<rparr>) = NaN then Fin 0
              else fdiv (fmul (k_d ti MODERATE)
                           (fsub err (prev_err (ex_status\<lparr>severity := SEVERE\<rparr>))))
                     (int_to_float 1000));
         budget = fadd (fadd (fadd (s_power ti MODERATE) p) i) d;
         floored = (if flt budget (min_alloc_power ti MODERATE)
                    then min_alloc_power ti MODERATE else budget);
         capped = (if fgt floored (max_alloc_power ti MODERATE)
                   then max_alloc_power ti MODERATE else floored)
       in pidPowerCalculator ex_temp ex_sensor (ex_status\<lparr>severity := SEVERE\<rparr>) 1000
            = (capped,
               ex_status\<lparr>severity := SEVERE,
                 err_integral :=
                   (if accept
                    then fadd (err_integral (ex_status\<lparr>severity := SEVERE\<rparr>)) err
                    else err_integral (ex_status\<lparr>severity := SEVERE\<rparr>)),
                 prev_err := err\<rparr>)"
    by (simp_all add: ex_highest_pid)
  have "throttling_info ex_sensor = ex_throttling" by (simp add: ex_sensor_def)
  with run have "pidPowerCalculator ex_temp ex_sensor (ex_status\<lparr>severity := SEVERE\<rparr>) 1000
       = (Fin 900, ex_status\<lparr>severity := SEVERE, err_integral := Fin 0,
                              prev_err := Fin (- 5)\<rparr>)"
    by (simp add: Let_def ex_sensor_def ex_throttling_def ex_temp_def
          ex_status_def initial_SensorStatus_def fsub_def fgt_def fl_eval)
  with \<open>pid_target_state (throttling_info ex_sensor) SEVERE = MODERATE\<close>
  show ?thesis by simp
qed

theorem pid_target_not_zero_counterexample:
  "severity (ex_status\<lparr>severity := SEVERE\<rparr>) \<noteq> NONE
   \<and> highest_pid_severity (throttling_info ex_sensor) = MODERATE
   \<and> sev_index MODERATE < sev_index (severity (ex_status\<lparr>severity := SEVERE\<rparr>))
   \<and> pid_target_state (throttling_info ex_sensor)
        (severity (ex_status\<lparr>severity := SEVERE\<rparr>)) \<noteq> NONE
   \<and> fst (pidPowerCalculator ex_temp ex_sensor (ex_status\<lparr>severity := SEVERE\<rparr>) 1000)
        = Fin 900
   \<and> prev_err (snd (pidPowerCalculator ex_temp ex_sensor
                      (ex_status\<lparr>severity := SEVERE\<rparr>) 1000)) \<noteq> NaN"
  by (simp add: pidPowerCalculator_def pid_target_state_def hidl_enum_range_def
        highest_pid_severity_def ex_sensor_def ex_throttling_def ex_status_def ex_temp_def
        initial_SensorStatus_def fsub_def fgt_def isnan_def Let_def fl_eval)

section \<open>The crossing-up scenario\<close>

lemma highest_pid_eq:
  assumes "throttle_type ti t = PID"
    and "\<forall>s. sev_index t < sev_index s \<longrightarrow> throttle_type ti s \<noteq> PID"
  shows "highest_pid_severity ti = t"
proof -
  have "throttle_type ti s \<noteq> PID" if "sev_index t < sev_index s" for s
    using assms(2) that by blast
  with assms(1) show ?thesis
    by (cases t) (simp_all add: highest_pid_severity_def hidl_enum_range_def)
qed

lemma pid_target_state_top:
  assumes "throttle_type ti t = PID"
    and "\<forall>s. sev_index t < sev_index s \<longrightarrow> throttle_type ti s \<noteq> PID"
  shows "pid_target_state ti t = t"
proof -
  have "\<forall>s. throttle_type ti s = PID \<longrightarrow> \<not> sev_index t < sev_index s"
    using assms(2) by blast
  then have "pid_target_state ti t = highest_pid_severity ti"
    by (rule pid_target_state_highest)
  with highest_pid_eq [OF assms] show ?thesis by simp
qed

lemma round32_scenario:
  "round32 (- 5) = Fin (- 5)" "round32 (- 100) = Fin (- 100)" "round32 900 = Fin 900"
  "round32 1 = Fin 1"
  by (simp_all add: fl_eval)

lemma fdiv_zero_by_count:
  assumes "elapsed \<noteq> 0"
  shows "fdiv (Fin 0) (int_to_float elapsed) = Fin 0"
proof (cases "round32 (of_int elapsed)")
  case (Fin y)
  from assms have "1 \<le> \<bar>elapsed\<bar>" by simp
  then have "(of_int 1 :: real) \<le> of_int \<bar>elapsed\<bar>" by (simp only: of_int_le_iff)
  then have "1 \<le> \<bar>of_int elapsed :: real\<bar>" by simp
  from round32_nonzero [OF this] Fin have "y \<noteq> 0" by auto
  with Fin show ?thesis by (simp add: int_to_float_def)
qed (simp_all add: int_to_float_def)

lemma scenario_budget:
  assumes sev: "severity st = MODERATE"
    and target: "pid_target_state (throttling_info sensor_info) MODERATE = MODERATE"
    and gains: "s_power (throttling_info sensor_info) MODERATE = Fin 1000"
      "k_po (throttling_info sensor_info) MODERATE = Fin 20"
      "k_i (throttling_info sensor_info) MODERATE = Fin 0"
      "k_d (throttling_info sensor_info) MODERATE = Fin 0"
    and reading: "hot_thresholds sensor_info MODERATE = Fin 55" "t_value temp = Fin 60"
    and integral: "err_integral st = Fin e"
    and deriv: "prev_err st = NaN
                \<or> (\<exists>pe. prev_err st = Fin pe \<and> is_float32 pe \<and> elapsed \<noteq> 0)"
    and clamp: "\<not> flt (Fin 900) (min_alloc_power (throttling_info sensor_info) MODERATE)"
      "\<not> fgt (Fin 900) (max_alloc_power (throttling_info sensor_info) MODERATE)"
  shows "pidPowerCalculator temp sensor_info st elapsed =
           (Fin 900, st\<lparr>err_integral := err_integral
               (snd (pidPowerCalculator temp sensor_info st elapsed)), prev_err := Fin (- 5)\<rparr>)"
  using deriv
proof
  assume "prev_err st = NaN"
  with sev target gains reading integral clamp show ?thesis
    by (simp add: pidPowerCalculator_def Let_def fsub_def isnan_def round32_scenario)
next
  assume "\<exists>pe. prev_err st = Fin pe \<and> is_float32 pe \<and> elapsed \<noteq> 0"
  then obtain pe where pe: "prev_err st = Fin pe" "is_float32 pe" "elapsed \<noteq> 0" by blast
  from fsub_finite [OF pe(2), of "- 5"] obtain r where "fsub (Fin (- 5)) (Fin pe) = Fin r"
    by auto
  then have r: "round32 (- 5 - pe) = Fin r" by (simp add: fsub_def)
  from sev target gains reading integral clamp pe(1) r fdiv_zero_by_count [OF pe(3)]
  show ?thesis
    by (simp add: pidPowerCalculator_def Let_def fsub_def isnan_def round32_scenario)
qed

lemma scenario_allocation:
  assumes "cdev_request (throttling_info sensor_info) = [c]"
    and "cdev_weight (throttling_info sensor_info) = [Fin w]" and "is_float32 w"
    and "w \<noteq> 0" and "c \<noteq> []"
    and "map_of cdev_info_map c = Some cdev"
    and "power2state cdev = [Fin 1500, Fin 1000, Fin 500, Fin 0]"
    and "map_of (pid_request_map st) c = Some old"
  shows "requestCdevByPower cdev_info_map st sensor_info (Fin 900) =
           Inr (True, st\<lparr>pid_request_map := AList.update c 2 (pid_request_map st)\<rparr>)"
proof -
  from assms(3) have w: "round32 w = Fin w" by (simp add: is_float32_def)
  from assms(1,2,4-8) w show ?thesis
    by (simp add: requestCdevByPower_def total_weight_of_def float_to_bool_def Let_def
          cdev_request_step_def map_at_def map_set_at_def fgt_def round32_scenario)
qed


text \<open>
  Claim C1, as amended. A sensor at severity MODERATE, whose highest PID severity is
  MODERATE, with \<open>s_power = 1000\<close>, over-temperature gain \<open>k_po = 20\<close>,
  \<open>k_i = k_d = 0\<close> and hot threshold 55 at MODERATE, reads 60. With a finite integral
  accumulator, a derivative term that is absent or taken from a finite previous error
  over a non-zero elapsed time, a weight that is a non-zero \<^verbatim>\<open>float\<close>, and
  allocation clamps that admit 900, \<^verbatim>\<open>pidPowerCalculator\<close> returns the budget
  \<open>1000 + (55 - 60) * 20 = 900\<close>; with the table \<open>[1500, 1000, 500, 0]\<close> and the whole
  weight on one cooling device \<^verbatim>\<open>requestCdevByPower\<close> then records state 2 for it.
\<close>

theorem pid_scenario_budget_and_state:
  assumes sev: "severity st = MODERATE"
    and pid: "throttle_type (throttling_info sensor_info) MODERATE = PID"
    and top: "\<forall>s. sev_index MODERATE < sev_index s
                \<longrightarrow> throttle_type (throttling_info sensor_info) s \<noteq> PID"
    and gains: "s_power (throttling_info sensor_info) MODERATE = Fin 1000"
      "k_po (throttling_info sensor_info) MODERATE = Fin 20"
      "k_i (throttling_info sensor_info) MODERATE = Fin 0"
      "k_d (throttling_info sensor_info) MODERATE = Fin 0"
    and reading: "hot_thresholds sensor_info MODERATE = Fin 55" "t_value temp = Fin 60"
    and integral: "err_integral st = Fin e"
    and deriv: "prev_err st = NaN
                \<or> (\<exists>pe. prev_err st = Fin pe \<and> is_float32 pe \<and> elapsed \<noteq> 0)"
    and clamp: "\<not> flt (Fin 900) (min_alloc_power (throttling_info sensor_info) MODERATE)"
      "\<not> fgt (Fin 900) (max_alloc_power (throttling_info sensor_info) MODERATE)"
    and alloc: "cdev_request (throttling_info sensor_info) = [c]"
      "cdev_weight (throttling_info sensor_info) = [Fin w]" "is_float32 w" "w \<noteq> 0"
      "c \<noteq> []"
      "map_of cdev_info_map c = Some cdev"
      "power2state cdev = [Fin 1500, Fin 1000, Fin 500, Fin 0]"
      "map_of (pid_request_map st) c = Some old"
  shows "fst (pidPowerCalculator temp sensor_info st elapsed) = Fin 900
         \<and> (\<exists>st'. requestCdevByPower cdev_info_map
                     (snd (pidPowerCalculator temp sensor_info st elapsed)) sensor_info
                     (fst (pidPowerCalculator temp sensor_info st elapsed)) = Inr (True, st')
                  \<and> map_of (pid_request_map st') c = Some 2)"
proof -
  have target: "pid_target_state (throttling_info sensor_info) MODERATE = MODERATE"
    by (rule pid_target_state_top [OF pid top])
  note budget = scenario_budget [OF sev target gains reading integral deriv clamp]
  let ?st1 = "snd (pidPowerCalculator temp sensor_info st elapsed)"
  have b: "fst (pidPowerCalculator temp sensor_info st elapsed) = Fin 900"
    by (subst budget) simp
  have "pid_request_map ?st1 = pid_request_map st"
    by (subst budget) simp
  with alloc(8) have "map_of (pid_request_map ?st1) c = Some old" by simp
  from scenario_allocation [OF alloc(1-7) this]
  have "requestCdevByPower cdev_info_map ?st1 sensor_info (Fin 900) =
          Inr (True, ?st1\<lparr>pid_request_map := AList.update c 2 (pid_request_map ?st1)\<rparr>)" .
  moreover have "map_of (pid_request_map
      (?st1\<lparr>pid_request_map := AList.update c 2 (pid_request_map ?st1)\<rparr>)) c = Some 2"
    by (simp add: update_conv')
  ultimately show ?thesis using b by simp
qed

lemma ex_no_pid_above_moderate:
  "\<forall>s. sev_index MODERATE < sev_index s
      \<longrightarrow> throttle_type (throttling_info ex_sensor) s \<noteq> PID"
proof
  fix s
  show "sev_index MODERATE < sev_index s
      \<longrightarrow> throttle_type (throttling_info ex_sensor) s \<noteq> PID"
    by (cases s) (simp_all add: ex_sensor_def ex_throttling_def)
qed

theorem pid_scenario_budget_and_state_witness:
  "fst (pidPowerCalculator ex_temp ex_sensor ex_status 1000) = Fin 900
   \<and> (\<exists>st'. requestCdevByPower ex_cdevs
               (snd (pidPowerCalculator ex_temp ex_sensor ex_status 1000)) ex_sensor
               (fst (pidPowerCalculator ex_temp ex_sensor ex_status 1000)) = Inr (True, st')
            \<and> map_of (pid_request_map st') ''cpu'' = Some 2)"
proof (rule pid_scenario_budget_and_state [OF _ _ ex_no_pid_above_moderate])
  show "prev_err ex_status = NaN
        \<or> (\<exists>pe. prev_err ex_status = Fin pe \<and> is_float32 pe \<and> (1000::int) \<noteq> 0)"
    by (simp add: ex_status_def initial_SensorStatus_def)
  show "err_integral ex_status = Fin 0"
    by (simp add: ex_status_def initial_SensorStatus_def)
  show "cdev_weight (throttling_info ex_sensor) = [Fin 1]"
    by (simp add: ex_sensor_def ex_throttling_def)
  show "is_float32 1"
    by (simp add: is_float32_def fl_eval)
  show "map_of ex_cdevs ''cpu''
          = Some \<lparr>cdev_type = 0, power2state = [Fin 1500, Fin 1000, Fin 500, Fin 0]\<rparr>"
    by (simp add: ex_cdevs_def)
  show "map_of (pid_request_map ex_status) ''cpu'' = Some 0"
    by (simp add: ex_status_def)
qed (simp_all add: ex_sensor_def ex_throttling_def ex_status_def ex_temp_def fgt_def)

theorem pid_scenario_kpu_counterexample:
  "severity ex_status = MODERATE
   \<and> s_power (throttling_info ex_sensor_kpu_only) MODERATE = Fin 1000
   \<and> k_pu (throttling_info ex_sensor_kpu_only) MODERATE = Fin 20
   \<and> k_i (throttling_info ex_sensor_kpu_only) MODERATE = Fin 0
   \<and> k_d (throttling_info ex_sensor_kpu_only) MODERATE = Fin 0
   \<and> hot_thresholds ex_sensor_kpu_only MODERATE = Fin 55
   \<and> t_value ex_temp = Fin 60
   \<and> fst (pidPowerCalculator ex_temp ex_sensor_kpu_only ex_status 1000) = Fin 1000"
  by (simp add: pidPowerCalculator_def pid_target_state_def hidl_enum_range_def
        ex_sensor_kpu_only_def ex_sensor_def ex_throttling_def ex_status_def ex_temp_def
        initial_SensorStatus_def fsub_def fgt_def isnan_def Let_def fl_eval)

section \<open>Hysteresis\<close>

lemma pick_Nil [simp]: "pick P [] = NONE" by (simp add: pick_def)
lemma pick_Cons [simp]: "pick P (x # xs) = (if P x then x else pick P xs)" by (simp add: pick_def)

lemma severity_step_tuple:
  "severity_step hot_th cold_th hot_hy cold_hy v (a, b, c, d) i =
     (if \<not> isnan (hot_th i) \<and> fle (hot_th i) v \<and> a = NONE then i else a,
      if \<not> isnan (hot_th i) \<and> flt (fsub (hot_th i) (hot_hy i)) v \<and> b = NONE then i else b,
      if \<not> isnan (cold_th i) \<and> fge (cold_th i) v \<and> c = NONE then i else c,
      if \<not> isnan (cold_th i) \<and> fgt (fadd (cold_th i) (cold_hy i)) v \<and> d = NONE then i else d)"
  by (simp add: severity_step_def)

lemma severity_fold:
  "NONE \<notin> set xs \<Longrightarrow>
   foldl (severity_step hot_th cold_th hot_hy cold_hy v) (a, b, c, d) xs =
     (if a = NONE then pick (\<lambda>i. \<not> isnan (hot_th i) \<and> fle (hot_th i) v) xs else a,
      if b = NONE then pick (\<lambda>i. \<not> isnan (hot_th i) \<and> flt (fsub (hot_th i) (hot_hy i)) v) xs else b,
      if c = NONE then pick (\<lambda>i. \<not> isnan (cold_th i) \<and> fge (cold_th i) v) xs else c,
      if d = NONE then pick (\<lambda>i. \<not> isnan (cold_th i) \<and> fgt (fadd (cold_th i) (cold_hy i)) v) xs else d)"
proof (induction xs arbitrary: a b c d)
  case Nil
  then show ?case by simp
next
  case (Cons x xs)
  then have x: "x \<noteq> NONE" and xs: "NONE \<notin> set xs" by auto
  show ?case
    by (simp add: Cons.IH [OF xs] severity_step_tuple x)
qed

lemma pick_scan_eq:
  assumes "P i" and "i \<noteq> NONE" and "\<And>j. sev_index i < sev_index j \<Longrightarrow> \<not> P j"
  shows "pick P severity_scan_order = i"
  using assms by (cases i) (auto simp: severity_scan_order_def)

lemma pick_scan_below:
  assumes "\<And>j. sev_index i \<le> sev_index j \<Longrightarrow> \<not> P j"
  shows "sev_index (pick P severity_scan_order) < sev_index i \<or> i = NONE"
  using assms by (cases i) (auto simp: severity_scan_order_def)


lemma sev_index_inj: "sev_index a = sev_index b \<Longrightarrow> a = b"
  by (cases a; cases b) simp_all

lemma flt_not_fle: "flt a b \<Longrightarrow> \<not> fle b a"
  by (cases a; cases b) simp_all

lemma getSeverity_fold:
  "foldl (severity_step hot_th cold_th hot_hy cold_hy v) (NONE, NONE, NONE, NONE)
      severity_scan_order =
     (pick (\<lambda>i. \<not> isnan (hot_th i) \<and> fle (hot_th i) v) severity_scan_order,
      pick (\<lambda>i. \<not> isnan (hot_th i) \<and> flt (fsub (hot_th i) (hot_hy i)) v) severity_scan_order,
      pick (\<lambda>i. \<not> isnan (cold_th i) \<and> fge (cold_th i) v) severity_scan_order,
      pick (\<lambda>i. \<not> isnan (cold_th i) \<and> fgt (fadd (cold_th i) (cold_hy i)) v) severity_scan_order)"
proof -
  have "NONE \<notin> set severity_scan_order"
    by (simp add: severity_scan_order_def)
  from severity_fold [OF this] show ?thesis by simp
qed

lemma hot_band:
  assumes i: "i \<noteq> NONE" and nn: "\<not> isnan (hot_th i)"
    and lo: "flt (fsub (hot_th i) (hot_hy i)) v" and hi: "flt v (hot_th i)"
    and above: "\<forall>j. sev_index i < sev_index j \<longrightarrow>
        isnan (hot_th j) \<or> (\<not> fle (hot_th j) v \<and> \<not> flt (fsub (hot_th j) (hot_hy j)) v)"
  shows "fst (getSeverityFromThresholds hot_th cold_th hot_hy cold_hy i prev_cold v) = i"
proof -
  let ?raw = "\<lambda>i. \<not> isnan (hot_th i) \<and> fle (hot_th i) v"
  let ?hyst = "\<lambda>i. \<not> isnan (hot_th i) \<and> flt (fsub (hot_th i) (hot_hy i)) v"
  have raw_none: "\<not> ?raw j" if "sev_index i \<le> sev_index j" for j
  proof (cases "sev_index i = sev_index j")
    case True
    then have "j = i" by (simp add: sev_index_inj)
    with hi show ?thesis by (simp add: flt_not_fle)
  next
    case False
    with that have "sev_index i < sev_index j" by simp
    with above show ?thesis by blast
  qed
  have "sev_index (pick ?raw severity_scan_order) < sev_index i \<or> i = NONE"
    by (rule pick_scan_below) (use raw_none in blast)
  with i have drop: "sev_index (pick ?raw severity_scan_order) < sev_index i" by simp
  have keep: "pick ?hyst severity_scan_order = i"
    by (rule pick_scan_eq) (use nn lo i above in auto)
  show ?thesis
    by (simp add: getSeverityFromThresholds_def getSeverity_fold drop keep)
qed

lemma cold_band:
  assumes i: "i \<noteq> NONE" and nn: "\<not> isnan (cold_th i)"
    and lo: "fgt (fadd (cold_th i) (cold_hy i)) v" and hi: "fgt v (cold_th i)"
    and above: "\<forall>j. sev_index i < sev_index j \<longrightarrow>
        isnan (cold_th j) \<or> (\<not> fge (cold_th j) v \<and> \<not> fgt (fadd (cold_th j) (cold_hy j)) v)"
  shows "snd (getSeverityFromThresholds hot_th cold_th hot_hy cold_hy prev_hot i v) = i"
proof -
  let ?raw = "\<lambda>i. \<not> isnan (cold_th i) \<and> fge (cold_th i) v"
  let ?hyst = "\<lambda>i. \<not> isnan (cold_th i) \<and> fgt (fadd (cold_th i) (cold_hy i)) v"
  have raw_none: "\<not> ?raw j" if "sev_index i \<le> sev_index j" for j
  proof (cases "sev_index i = sev_index j")
    case True
    then have "j = i" by (simp add: sev_index_inj)
    with hi show ?thesis by (simp add: flt_not_fle fgt_def fge_def)
  next
    case False
    with that have "sev_index i < sev_index j" by simp
    with above show ?thesis by blast
  qed
  have "sev_index (pick ?raw severity_scan_order) < sev_index i \<or> i = NONE"
    by (rule pick_scan_below) (use raw_none in blast)
  with i have drop: "sev_index (pick ?raw severity_scan_order) < sev_index i" by simp
  have keep: "pick ?hyst severity_scan_order = i"
    by (rule pick_scan_eq) (use nn lo i above in auto)
  show ?thesis
    by (simp add: getSeverityFromThresholds_def getSeverity_fold drop keep)
qed

lemma hot_drop:
  assumes i: "i \<noteq> NONE"
    and lo: "\<not> flt (fsub (hot_th i) (hot_hy i)) v" and hi: "flt v (hot_th i)"
    and above: "\<forall>j. sev_index i < sev_index j \<longrightarrow>
        isnan (hot_th j) \<or> (\<not> fle (hot_th j) v \<and> \<not> flt (fsub (hot_th j) (hot_hy j)) v)"
  shows "sev_index (fst (getSeverityFromThresholds hot_th cold_th hot_hy cold_hy i prev_cold v))
           < sev_index i"
proof -
  let ?raw = "\<lambda>i. \<not> isnan (hot_th i) \<and> fle (hot_th i) v"
  let ?hyst = "\<lambda>i. \<not> isnan (hot_th i) \<and> flt (fsub (hot_th i) (hot_hy i)) v"
  have none: "\<not> ?raw j \<and> \<not> ?hyst j" if "sev_index i \<le> sev_index j" for j
  proof (cases "sev_index i = sev_index j")
    case True
    then have "j = i" by (simp add: sev_index_inj)
    with hi lo show ?thesis by (simp add: flt_not_fle)
  next
    case False
    with that have "sev_index i < sev_index j" by simp
    with above show ?thesis by blast
  qed
  have "sev_index (pick ?raw severity_scan_order) < sev_index i \<or> i = NONE"
    by (rule pick_scan_below) (use none in blast)
  with i have drop: "sev_index (pick ?raw severity_scan_order) < sev_index i" by simp
  have "sev_index (pick ?hyst severity_scan_order) < sev_index i \<or> i = NONE"
    by (rule pick_scan_below) (use none in blast)
  with i have below: "sev_index (pick ?hyst severity_scan_order) < sev_index i" by simp
  show ?thesis
    by (simp add: getSeverityFromThresholds_def getSeverity_fold drop below)
qed

lemma cold_drop:
  assumes i: "i \<noteq> NONE"
    and lo: "\<not> fgt (fadd (cold_th i) (cold_hy i)) v" and hi: "fgt v (cold_th i)"
    and above: "\<forall>j. sev_index i < sev_index j \<longrightarrow>
        isnan (cold_th j) \<or> (\<not> fge (cold_th j) v \<and> \<not> fgt (fadd (cold_th j) (cold_hy j)) v)"
  shows "sev_index (snd (getSeverityFromThresholds hot_th cold_th hot_hy cold_hy prev_hot i v))
           < sev_index i"
proof -
  let ?raw = "\<lambda>i. \<not> isnan (cold_th i) \<and> fge (cold_th i) v"
  let ?hyst = "\<lambda>i. \<not> isnan (cold_th i) \<and> fgt (fadd (cold_th i) (cold_hy i)) v"
  have none: "\<not> ?raw j \<and> \<not> ?hyst j" if "sev_index i \<le> sev_index j" for j
  proof (cases "sev_index i = sev_index j")
    case True
    then have "j = i" by (simp add: sev_index_inj)
    with hi lo show ?thesis by (simp add: flt_not_fle fgt_def fge_def)
  next
    case False
    with that have "sev_index i < sev_index j" by simp
    with above show ?thesis by blast
  qed
  have "sev_index (pick ?raw severity_scan_order) < sev_index i \<or> i = NONE"
    by (rule pick_scan_below) (use none in blast)
  with i have drop: "sev_index (pick ?raw severity_scan_order) < sev_index i" by simp
  have "sev_index (pick ?hyst severity_scan_order) < sev_index i \<or> i = NONE"
    by (rule pick_scan_below) (use none in blast)
  with i have below: "sev_index (pick ?hyst severity_scan_order) < sev_index i" by simp
  show ?thesis
    by (simp add: getSeverityFromThresholds_def getSeverity_fold drop below)
qed

text \<open>
  Claim C3, as amended. Let \<open>i\<close> be a severity above NONE with a non-NaN hot threshold,
  let the previous hot severity be \<open>i\<close>, let the value \<open>v\<close> be strictly below
  \<open>hot_thresholds[i]\<close>, and let no higher severity have a non-NaN threshold, or a
  threshold minus hysteresis, that the value has reached. Then
  \<^verbatim>\<open>getSeverityFromThresholds\<close> returns the hot severity \<open>i\<close> when \<open>v\<close> is strictly
  above the \<^verbatim>\<open>float\<close> difference \<open>hot_thresholds[i] - hot_hysteresis[i]\<close>, and a hot
  severity strictly below \<open>i\<close> otherwise, so already when \<open>v\<close> equals that difference.
  The same holds for the cold severity, for \<open>v\<close> strictly above \<open>cold_thresholds[i]\<close>
  and the \<^verbatim>\<open>float\<close> sum \<open>cold_thresholds[i] + cold_hysteresis[i]\<close>.
\<close>

theorem hysteresis_band_keeps_severity:
  "i \<noteq> NONE \<longrightarrow>
   (\<not> isnan (hot_th i) \<and> flt v (hot_th i) \<and>
    (\<forall>j. sev_index i < sev_index j \<longrightarrow>
        isnan (hot_th j) \<or> (\<not> fle (hot_th j) v \<and> \<not> flt (fsub (hot_th j) (hot_hy j)) v))
    \<longrightarrow> (if flt (fsub (hot_th i) (hot_hy i)) v
         then fst (getSeverityFromThresholds hot_th cold_th hot_hy cold_hy i prev_cold v) = i
         else sev_index (fst (getSeverityFromThresholds hot_th cold_th hot_hy cold_hy
                                i prev_cold v)) < sev_index i)) \<and>
   (\<not> isnan (cold_th i) \<and> fgt v (cold_th i) \<and>
    (\<forall>j. sev_index i < sev_index j \<longrightarrow>
        isnan (cold_th j) \<or> (\<not> fge (cold_th j) v \<and> \<not> fgt (fadd (cold_th j) (cold_hy j)) v))
    \<longrightarrow> (if fgt (fadd (cold_th i) (cold_hy i)) v
         then snd (getSeverityFromThresholds hot_th cold_th hot_hy cold_hy prev_hot i v) = i
         else sev_index (snd (getSeverityFromThresholds hot_th cold_th hot_hy cold_hy
                                prev_hot i v)) < sev_index i))"
proof (intro impI conjI)
  assume i: "i \<noteq> NONE"
    and h: "\<not> isnan (hot_th i) \<and> flt v (hot_th i) \<and>
      (\<forall>j. sev_index i < sev_index j \<longrightarrow>
        isnan (hot_th j) \<or> (\<not> fle (hot_th j) v \<and> \<not> flt (fsub (hot_th j) (hot_hy j)) v))"
  show "if flt (fsub (hot_th i) (hot_hy i)) v
         then fst (getSeverityFromThresholds hot_th cold_th hot_hy cold_hy i prev_cold v) = i
         else sev_index (fst (getSeverityFromThresholds hot_th cold_th hot_hy cold_hy
                                i prev_cold v)) < sev_index i"
  proof (cases "flt (fsub (hot_th i) (hot_hy i)) v")
    case True
    with hot_band [of i hot_th hot_hy v cold_th cold_hy prev_cold] i h show ?thesis by simp
  next
    case False
    with hot_drop [of i hot_th hot_hy v cold_th cold_hy prev_cold] i h show ?thesis by simp
  qed
next
  assume i: "i \<noteq> NONE"
    and c: "\<not> isnan (cold_th i) \<and> fgt v (cold_th i) \<and>
      (\<forall>j. sev_index i < sev_index j \<longrightarrow>
        isnan (cold_th j) \<or> (\<not> fge (cold_th j) v \<and> \<not> fgt (fadd (cold_th j) (cold_hy j)) v))"
  show "if fgt (fadd (cold_th i) (cold_hy i)) v
         then snd (getSeverityFromThresholds hot_th cold_th hot_hy cold_hy prev_hot i v) = i
         else sev_index (snd (getSeverityFromThresholds hot_th cold_th hot_hy cold_hy
                                prev_hot i v)) < sev_index i"
  proof (cases "fgt (fadd (cold_th i) (cold_hy i)) v")
    case True
    with cold_band [of i cold_th cold_hy v hot_th hot_hy prev_hot] i c show ?thesis by simp
  next
    case False
    with cold_drop [of i cold_th cold_hy v hot_th hot_hy prev_hot] i c show ?thesis by simp
  qed
qed

lemma ex_above_hot:
  "\<forall>j. sev_index MODERATE < sev_index j \<longrightarrow>
        isnan (ex_hot j) \<or> (\<not> fle (ex_hot j) (Fin 53) \<and> \<not> flt (fsub (ex_hot j) (ex_hyst j)) (Fin 53))"
proof (intro allI)
  fix j show "sev_index MODERATE < sev_index j \<longrightarrow>
        isnan (ex_hot j) \<or> (\<not> fle (ex_hot j) (Fin 53) \<and> \<not> flt (fsub (ex_hot j) (ex_hyst j)) (Fin 53))"
    by (cases j) (simp_all add: ex_hot_def ex_hyst_def isnan_def fsub_def fl_eval)
qed

lemma ex_above_cold:
  "\<forall>j. sev_index MODERATE < sev_index j \<longrightarrow>
        isnan (ex_cold j) \<or> (\<not> fge (ex_cold j) (Fin (- 8)) \<and> \<not> fgt (fadd (ex_cold j) (ex_hyst j)) (Fin (- 8)))"
proof (intro allI)
  fix j show "sev_index MODERATE < sev_index j \<longrightarrow>
        isnan (ex_cold j) \<or> (\<not> fge (ex_cold j) (Fin (- 8)) \<and> \<not> fgt (fadd (ex_cold j) (ex_hyst j)) (Fin (- 8)))"
    by (cases j) (simp_all add: ex_cold_def ex_hyst_def isnan_def fge_def fgt_def fl_eval)
qed

lemma ex_above_hot_low:
  "\<forall>j. sev_index MODERATE < sev_index j \<longrightarrow>
        isnan (ex_hot j) \<or> (\<not> fle (ex_hot j) (Fin 51) \<and> \<not> flt (fsub (ex_hot j) (ex_hyst j)) (Fin 51))"
proof (intro allI)
  fix j show "sev_index MODERATE < sev_index j \<longrightarrow>
        isnan (ex_hot j) \<or> (\<not> fle (ex_hot j) (Fin 51) \<and> \<not> flt (fsub (ex_hot j) (ex_hyst j)) (Fin 51))"
    by (cases j) (simp_all add: ex_hot_def ex_hyst_def isnan_def fsub_def fl_eval)
qed

theorem hysteresis_band_keeps_severity_witness:
  "fst (getSeverityFromThresholds ex_hot ex_cold ex_hyst ex_hyst MODERATE NONE (Fin 53)) = MODERATE \<and>
   sev_index (fst (getSeverityFromThresholds ex_hot ex_cold ex_hyst ex_hyst MODERATE NONE (Fin 51)))
     < sev_index MODERATE \<and>
   snd (getSeverityFromThresholds ex_hot ex_cold ex_hyst ex_hyst NONE MODERATE (Fin (- 8))) = MODERATE"
proof -
  have h: "\<not> isnan (ex_hot MODERATE) \<and> flt (fsub (ex_hot MODERATE) (ex_hyst MODERATE)) (Fin 53) \<and>
      flt (Fin 53) (ex_hot MODERATE)"
    by (simp add: ex_hot_def ex_hyst_def isnan_def fsub_def fl_eval)
  have l: "\<not> isnan (ex_hot MODERATE) \<and> \<not> flt (fsub (ex_hot MODERATE) (ex_hyst MODERATE)) (Fin 51) \<and>
      flt (Fin 51) (ex_hot MODERATE)"
    by (simp add: ex_hot_def ex_hyst_def isnan_def fsub_def fl_eval)
  have c: "\<not> isnan (ex_cold MODERATE) \<and> fgt (fadd (ex_cold MODERATE) (ex_hyst MODERATE)) (Fin (- 8)) \<and>
      fgt (Fin (- 8)) (ex_cold MODERATE)"
    by (simp add: ex_cold_def ex_hyst_def isnan_def fgt_def fl_eval)
  have m: "MODERATE \<noteq> NONE" by simp
  from hysteresis_band_keeps_severity [of MODERATE ex_hot "Fin 53" ex_hyst ex_cold ex_hyst NONE]
       h ex_above_hot m
  have 1: "fst (getSeverityFromThresholds ex_hot ex_cold ex_hyst ex_hyst MODERATE NONE (Fin 53)) = MODERATE"
    by simp
  from hysteresis_band_keeps_severity [of MODERATE ex_hot "Fin 51" ex_hyst ex_cold ex_hyst NONE]
       l ex_above_hot_low m
  have 2: "sev_index (fst (getSeverityFromThresholds ex_hot ex_cold ex_hyst ex_hyst MODERATE NONE
             (Fin 51))) < sev_index MODERATE"
    by simp
  from hysteresis_band_keeps_severity [of MODERATE ex_hot "Fin (- 8)" ex_hyst ex_cold ex_hyst _ NONE]
       c ex_above_cold m
  have 3: "snd (getSeverityFromThresholds ex_hot ex_cold ex_hyst ex_hyst NONE MODERATE (Fin (- 8))) = MODERATE"
    by simp
  from 1 2 3 show ?thesis by simp
qed

theorem hysteresis_boundary_counterexample:
  "\<not> isnan (ex_hot MODERATE) \<and> flt (Fin 0) (ex_hyst MODERATE) \<and>
   fle (fsub (ex_hot MODERATE) (ex_hyst MODERATE)) (Fin 52) \<and> flt (Fin 52) (ex_hot MODERATE) \<and>
   fst (getSeverityFromThresholds ex_hot ex_cold ex_hyst ex_hyst MODERATE NONE (Fin 52)) = LIGHT"
  by (simp add: getSeverityFromThresholds_def severity_scan_order_def severity_step_def
        ex_hot_def ex_cold_def ex_hyst_def isnan_def fsub_def fge_def fgt_def fl_eval)

section \<open>The integral accumulator\<close>

lemma flt_PInf_left [simp]: "\<not> flt PInf m"
  by (cases m) simp_all

lemma flt_NaN_left [simp]: "\<not> flt NaN m"
  by (cases m) simp_all











section \<open>Virtual sensors\<close>

text \<open>
  Claim C9 fails on the code. The running maximum is set to the lowest float only in the
  round with index 0, and only when that round reaches the formula. When the first linked
  sensor is skipped the maximum starts from 0, and a later negative product is lost: the
  sensors \<open>vnan\<close> and \<open>vgone\<close> report 0 where the maximum of the contributing products
  is -5. The sensor \<open>vmax\<close>, whose first entry contributes, reports the maximum 45.
\<close>

theorem checkVirtualSensor_maximum_first_skipped:
  "checkVirtualSensor ex_files ex_virtual_map ''vnan'' = Inr (Some (Fin 0))
   \<and> checkVirtualSensor ex_files ex_virtual_map ''vgone'' = Inr (Some (Fin 0))
   \<and> checkVirtualSensor ex_files ex_virtual_map ''vmax'' = Inr (Some (Fin 45))"
  by (simp add: checkVirtualSensor_def ex_virtual_map_def ex_virtual_def ex_sensor_def
        ex_files_def isnan_def fgt_def FLT_LOWEST_def Let_def fl_eval)

section \<open>Temperature snapshots\<close>

lemma readTemperature_name:
  assumes "readTemperature files sim ssm name v = Inr (Some r)"
  shows "t_name (fst r) = name"
  using assms
  by (auto simp add: readTemperature_def Let_def
        split: sum.splits option.splits if_splits)

lemma fill_loop_some:
  assumes "fill_loop files sim ssm filterType ty xs ret = Inr (Some out)"
  shows "\<exists>ts. out = ret @ ts
           \<and> map t_name ts = map fst (selected_sensors filterType ty xs)
           \<and> (\<forall>p \<in> set (selected_sensors filterType ty xs).
                 \<exists>r. readTemperature files sim ssm (fst p) False = Inr (Some r))"
  using assms
proof (induction xs arbitrary: ret)
  case Nil
  then show ?case by (simp add: selected_sensors_def)
next
  case (Cons x xs)
  show ?case
  proof (cases "filterType \<and> si_type (snd x) \<noteq> ty")
    case True
    with Cons.prems have "fill_loop files sim ssm filterType ty xs ret = Inr (Some out)"
      by simp
    from Cons.IH [OF this] True show ?thesis
      by (simp add: selected_sensors_def)
  next
    case False
    with Cons.prems obtain r where
      r: "readTemperature files sim ssm (fst x) False = Inr (Some r)"
      and rest: "fill_loop files sim ssm filterType ty xs (ret @ [fst r]) = Inr (Some out)"
      by (auto split: sum.splits option.splits)
    from Cons.IH [OF rest] obtain ts where
      ts: "out = (ret @ [fst r]) @ ts"
        "map t_name ts = map fst (selected_sensors filterType ty xs)"
        "\<forall>p \<in> set (selected_sensors filterType ty xs).
            \<exists>r. readTemperature files sim ssm (fst p) False = Inr (Some r)"
      by blast
    have sel: "selected_sensors filterType ty (x # xs) = x # selected_sensors filterType ty xs"
      using False by (simp add: selected_sensors_def)
    have "out = ret @ (fst r # ts)" using ts(1) by simp
    moreover have "map t_name (fst r # ts) = map fst (selected_sensors filterType ty (x # xs))"
      using ts(2) readTemperature_name [OF r] by (simp add: sel)
    moreover have "\<forall>p \<in> set (selected_sensors filterType ty (x # xs)).
            \<exists>r. readTemperature files sim ssm (fst p) False = Inr (Some r)"
      using ts(3) r unfolding sel by (metis set_ConsD)
    ultimately show ?thesis by blast
  qed
qed

lemma fill_loop_none:
  assumes "fill_loop files sim ssm filterType ty xs ret = Inr None"
  shows "\<exists>p \<in> set (selected_sensors filterType ty xs).
           readTemperature files sim ssm (fst p) False = Inr None"
  using assms
proof (induction xs arbitrary: ret)
  case Nil
  then show ?case by simp
next
  case (Cons x xs)
  show ?case
  proof (cases "filterType \<and> si_type (snd x) \<noteq> ty")
    case True
    with Cons.prems have "fill_loop files sim ssm filterType ty xs ret = Inr None"
      by simp
    from Cons.IH [OF this] True show ?thesis
      by (simp add: selected_sensors_def)
  next
    case False
    then have sel: "selected_sensors filterType ty (x # xs) = x # selected_sensors filterType ty xs"
      by (simp add: selected_sensors_def)
    show ?thesis
    proof (cases "readTemperature files sim ssm (fst x) False")
      case (Inl e)
      with Cons.prems False show ?thesis by simp
    next
      case (Inr res)
      show ?thesis
      proof (cases res)
        case None
        with Inr show ?thesis by (simp add: sel)
      next
        case (Some r)
        with Inr Cons.prems False
        have "fill_loop files sim ssm filterType ty xs (ret @ [fst r]) = Inr None"
          by simp
        from Cons.IH [OF this] show ?thesis by (simp add: sel)
      qed
    qed
  qed
qed

text \<open>
  Claim C8, as amended. \<^verbatim>\<open>fillCurrentTemperatures\<close> gives no partial answer. When it
  returns true, the output holds one temperature for every selected sensor, in order, there
  is at least one, and every selected sensor was read. When it returns false, either no
  sensor is selected and the output is empty, or the read of some selected sensor failed
  and the caller's vector is left as it was, whatever other sensors could be read.
\<close>

theorem fillCurrentTemperatures_all_or_nothing:
  assumes "fillCurrentTemperatures files sim ssm filterType ty temperatures = Inr (ok, out)"
  shows "(ok \<longrightarrow> out \<noteq> []
              \<and> map t_name out = map fst (selected_sensors filterType ty sim)
              \<and> (\<forall>p \<in> set (selected_sensors filterType ty sim).
                    \<exists>r. readTemperature files sim ssm (fst p) False = Inr (Some r)))
         \<and> (\<not> ok \<longrightarrow> (out = [] \<and> selected_sensors filterType ty sim = [])
              \<or> (out = temperatures
                  \<and> (\<exists>p \<in> set (selected_sensors filterType ty sim).
                        readTemperature files sim ssm (fst p) False = Inr None)))"
proof (cases "fill_loop files sim ssm filterType ty sim []")
  case (Inl e)
  with assms show ?thesis by (simp add: fillCurrentTemperatures_def)
next
  case (Inr res)
  show ?thesis
  proof (cases res)
    case None
    with Inr assms have "\<not> ok" "out = temperatures"
      by (simp_all add: fillCurrentTemperatures_def)
    with fill_loop_none [of files sim ssm filterType ty sim "[]"] Inr None
    show ?thesis by simp
  next
    case (Some ret)
    with Inr assms have ok: "ok = (0 < length ret)" and out: "out = ret"
      by (auto simp add: fillCurrentTemperatures_def)
    from fill_loop_some [of files sim ssm filterType ty sim "[]" ret] Inr Some
    have names: "map t_name ret = map fst (selected_sensors filterType ty sim)"
      and reads: "\<forall>p \<in> set (selected_sensors filterType ty sim).
            \<exists>r. readTemperature files sim ssm (fst p) False = Inr (Some r)"
      by auto
    show ?thesis
    proof (cases ok)
      case True
      with ok out names reads show ?thesis by auto
    next
      case False
      with ok out have "out = []" by simp
      with False names out show ?thesis by simp
    qed
  qed
qed

lemma ex_snapshot_s1:
  "readTemperature ex_files ex_snapshot_map [] ''s1'' False =
     Inr (Some (\<lparr>t_type = SKIN, t_name = ''s1'', t_value = Fin 40, throttlingStatus = NONE\<rparr>,
                NONE, NONE))"
  by (simp add: readTemperature_def ex_files_def ex_snapshot_map_def ex_sensor_def map_at_def
        fl_eval)

lemma ex_snapshot_run:
  "fillCurrentTemperatures ex_files ex_snapshot_map [] False SKIN [] = Inr (False, [])"
  by (simp add: fillCurrentTemperatures_def readTemperature_def ex_files_def
        ex_snapshot_map_def ex_sensor_def map_at_def fl_eval)

theorem fillCurrentTemperatures_all_or_nothing_witness:
  "fillCurrentTemperatures ex_files ex_snapshot_map [] False SKIN [] = Inr (False, [])
   \<and> (\<exists>p \<in> set (selected_sensors False SKIN ex_snapshot_map).
         readTemperature ex_files ex_snapshot_map [] (fst p) False = Inr None)"
proof -
  have "selected_sensors False SKIN ex_snapshot_map \<noteq> []"
    by (simp add: selected_sensors_def ex_snapshot_map_def)
  with fillCurrentTemperatures_all_or_nothing [OF ex_snapshot_run] ex_snapshot_run
  show ?thesis by simp
qed

theorem fillCurrentTemperatures_partial_counterexample:
  "readTemperature ex_files ex_snapshot_map [] ''s1'' False =
     Inr (Some (\<lparr>t_type = SKIN, t_name = ''s1'', t_value = Fin 40, throttlingStatus = NONE\<rparr>,
                NONE, NONE))
   \<and> fillCurrentTemperatures ex_files ex_snapshot_map [] False SKIN [] = Inr (False, [])"
  by (simp add: fillCurrentTemperatures_def readTemperature_def ex_files_def
        ex_snapshot_map_def ex_sensor_def map_at_def fl_eval)

section \<open>The maps the constructor builds\<close>

lemma keys_update: "fst ` set (AList.update k v al) = insert k (fst ` set al)"
  by (simp add: dom_update)

lemma efold_append:
  "efold f (xs @ ys) s = (case efold f xs s of Inl e \<Rightarrow> Inl e | Inr s' \<Rightarrow> efold f ys s')"
  by (induction xs arbitrary: s) (simp_all split: sum.splits)

lemma map_of_map_index_update:
  "map_of (map_index_update d f k m) k' =
     (if k' = k then Some (f (case map_of m k of None \<Rightarrow> d | Some v \<Rightarrow> v)) else map_of m k')"
  by (simp add: map_index_update_def update_conv')

lemma keys_map_index_update:
  "fst ` set (map_index_update d f k m) = insert k (fst ` set m)"
  by (simp add: map_index_update_def keys_update)

lemma distinct_map_index_update:
  "distinct (map fst m) \<Longrightarrow> distinct (map fst (map_index_update d f k m))"
  by (simp add: map_index_update_def distinct_update)

lemma ctor_cdev_request_result:
  assumes "ctor_cdev_request cim name c maps = Inr maps'"
  shows "maps' =
     (map_index_update initial_SensorStatus
        (\<lambda>st. st\<lparr>pid_request_map := AList.update c 0 (pid_request_map st)\<rparr>) name (fst maps),
      map_index_update [] (AList.update name 0) c (snd maps))"
  using assms by (simp add: ctor_cdev_request_def split: if_splits)

lemma ctor_limit_info_result:
  assumes "ctor_limit_info cim name lp maps = Inr maps'"
  shows "maps' =
     (map_index_update initial_SensorStatus
        (\<lambda>st. st\<lparr>hard_limit_request_map :=
                   AList.update (fst lp) 0 (hard_limit_request_map st)\<rparr>) name (fst maps),
      map_index_update [] (AList.update name 0) (fst lp) (snd maps))"
  using assms by (simp add: ctor_limit_info_def split: if_splits)

lemma request_keys_index_update:
  "request_keys (map_index_update [] (AList.update name 0) c csm) c' =
     (if c' = c then insert name (request_keys csm c') else request_keys csm c')"
  by (simp add: request_keys_def map_of_map_index_update keys_update split: option.splits)

lemma pid_keys_index_update_pid:
  "pid_keys (map_index_update initial_SensorStatus
       (\<lambda>st. st\<lparr>pid_request_map := AList.update c 0 (pid_request_map st)\<rparr>) name ssm) n =
     (if n = name then insert c (pid_keys ssm n) else pid_keys ssm n)"
  by (simp add: pid_keys_def map_of_map_index_update keys_update initial_SensorStatus_def
        split: option.splits)

lemma limit_keys_index_update_pid:
  "limit_keys (map_index_update initial_SensorStatus
       (\<lambda>st. st\<lparr>pid_request_map := AList.update c 0 (pid_request_map st)\<rparr>) name ssm) n =
     limit_keys ssm n"
  by (simp add: limit_keys_def map_of_map_index_update initial_SensorStatus_def
        split: option.splits)

lemma pid_keys_index_update_limit:
  "pid_keys (map_index_update initial_SensorStatus
       (\<lambda>st. st\<lparr>hard_limit_request_map := AList.update c 0 (hard_limit_request_map st)\<rparr>)
       name ssm) n = pid_keys ssm n"
  by (simp add: pid_keys_def map_of_map_index_update initial_SensorStatus_def
        split: option.splits)

lemma limit_keys_index_update_limit:
  "limit_keys (map_index_update initial_SensorStatus
       (\<lambda>st. st\<lparr>hard_limit_request_map := AList.update c 0 (hard_limit_request_map st)\<rparr>)
       name ssm) n =
     (if n = name then insert c (limit_keys ssm n) else limit_keys ssm n)"
  by (simp add: limit_keys_def map_of_map_index_update keys_update initial_SensorStatus_def
        split: option.splits)

text \<open>The loop over \<^verbatim>\<open>cdev_request\<close> of one sensor.\<close>

lemma ctor_cdev_request_loop:
  assumes "efold (ctor_cdev_request cim name) cs maps = Inr maps'"
  shows "(\<forall>n. pid_keys (fst maps') n = (if n = name then set cs \<union> pid_keys (fst maps) n
                                        else pid_keys (fst maps) n))
       \<and> (\<forall>n. limit_keys (fst maps') n = limit_keys (fst maps) n)
       \<and> fst ` set (fst maps') = (if cs = [] then {} else {name}) \<union> fst ` set (fst maps)
       \<and> (\<forall>c. request_keys (snd maps') c =
                 (if c \<in> set cs then insert name (request_keys (snd maps) c)
                  else request_keys (snd maps) c))
       \<and> fst ` set (snd maps') = set cs \<union> fst ` set (snd maps)
       \<and> (distinct (map fst (snd maps)) \<longrightarrow> distinct (map fst (snd maps')))"
  using assms
proof (induction cs arbitrary: maps)
  case Nil
  then show ?case by simp
next
  case (Cons c cs)
  from Cons.prems obtain m1 where
    step: "ctor_cdev_request cim name c maps = Inr m1"
    and rest: "efold (ctor_cdev_request cim name) cs m1 = Inr maps'"
    by (auto split: sum.splits)
  note m1 = ctor_cdev_request_result [OF step]
  note IH = Cons.IH [OF rest]
  have 1: "\<forall>n. pid_keys (fst m1) n = (if n = name then insert c (pid_keys (fst maps) n)
                                      else pid_keys (fst maps) n)"
    by (simp add: m1 pid_keys_index_update_pid)
  have 2: "\<forall>n. limit_keys (fst m1) n = limit_keys (fst maps) n"
    by (simp add: m1 limit_keys_index_update_pid)
  have 3: "fst ` set (fst m1) = insert name (fst ` set (fst maps))"
    by (simp add: m1 keys_map_index_update)
  have 4: "\<forall>c'. request_keys (snd m1) c' =
             (if c' = c then insert name (request_keys (snd maps) c')
              else request_keys (snd maps) c')"
    by (simp add: m1 request_keys_index_update)
  have 5: "fst ` set (snd m1) = insert c (fst ` set (snd maps))"
    by (simp add: m1 keys_map_index_update)
  have 6: "distinct (map fst (snd maps)) \<longrightarrow> distinct (map fst (snd m1))"
    by (simp add: m1 distinct_map_index_update)
  show ?case
    using IH 1 2 3 4 5 6 by (auto split: if_splits)
qed

text \<open>The loop over \<^verbatim>\<open>limit_info\<close> of one sensor.\<close>

lemma ctor_limit_info_loop:
  assumes "efold (ctor_limit_info cim name) ls maps = Inr maps'"
  shows "(\<forall>n. pid_keys (fst maps') n = pid_keys (fst maps) n)
       \<and> (\<forall>n. limit_keys (fst maps') n =
                 (if n = name then fst ` set ls \<union> limit_keys (fst maps) n
                  else limit_keys (fst maps) n))
       \<and> fst ` set (fst maps') = (if ls = [] then {} else {name}) \<union> fst ` set (fst maps)
       \<and> (\<forall>c. request_keys (snd maps') c =
                 (if c \<in> fst ` set ls then insert name (request_keys (snd maps) c)
                  else request_keys (snd maps) c))
       \<and> fst ` set (snd maps') = fst ` set ls \<union> fst ` set (snd maps)
       \<and> (distinct (map fst (snd maps)) \<longrightarrow> distinct (map fst (snd maps')))"
  using assms
proof (induction ls arbitrary: maps)
  case Nil
  then show ?case by simp
next
  case (Cons lp ls)
  from Cons.prems obtain m1 where
    step: "ctor_limit_info cim name lp maps = Inr m1"
    and rest: "efold (ctor_limit_info cim name) ls m1 = Inr maps'"
    by (auto split: sum.splits)
  note m1 = ctor_limit_info_result [OF step]
  note IH = Cons.IH [OF rest]
  have 1: "\<forall>n. pid_keys (fst m1) n = pid_keys (fst maps) n"
    by (simp add: m1 pid_keys_index_update_limit)
  have 2: "\<forall>n. limit_keys (fst m1) n =
             (if n = name then insert (fst lp) (limit_keys (fst maps) n)
              else limit_keys (fst maps) n)"
    by (simp add: m1 limit_keys_index_update_limit)
  have 3: "fst ` set (fst m1) = insert name (fst ` set (fst maps))"
    by (simp add: m1 keys_map_index_update)
  have 4: "\<forall>c'. request_keys (snd m1) c' =
             (if c' = fst lp then insert name (request_keys (snd maps) c')
              else request_keys (snd maps) c')"
    by (simp add: m1 request_keys_index_update)
  have 5: "fst ` set (snd m1) = insert (fst lp) (fst ` set (snd maps))"
    by (simp add: m1 keys_map_index_update)
  have 6: "distinct (map fst (snd maps)) \<longrightarrow> distinct (map fst (snd m1))"
    by (simp add: m1 distinct_map_index_update)
  show ?case
    using IH 1 2 3 4 5 6 by (auto split: if_splits)
qed

text \<open>One round of the constructor's loop over the sensors.\<close>

lemma pid_keys_fresh:
  "pid_keys (AList.update name initial_SensorStatus ssm) n =
     (if n = name then {} else pid_keys ssm n)"
  by (simp add: pid_keys_def update_conv' initial_SensorStatus_def)

lemma limit_keys_fresh:
  "limit_keys (AList.update name initial_SensorStatus ssm) n =
     (if n = name then {} else limit_keys ssm n)"
  by (simp add: limit_keys_def update_conv' initial_SensorStatus_def)

lemma ctor_sensor_keys:
  assumes "ctor_sensor cim (name, info) maps = Inr maps'"
  shows "(\<forall>n. pid_keys (fst maps') n =
                 (if n = name then set (cdev_request (throttling_info info))
                  else pid_keys (fst maps) n))
       \<and> (\<forall>n. limit_keys (fst maps') n =
                 (if n = name then fst ` set (limit_info (throttling_info info))
                  else limit_keys (fst maps) n))
       \<and> fst ` set (fst maps') = insert name (fst ` set (fst maps))
       \<and> (\<forall>c. request_keys (snd maps') c =
                 (if c \<in> set (sensor_cdevs info) then insert name (request_keys (snd maps) c)
                  else request_keys (snd maps) c))
       \<and> fst ` set (snd maps') = set (sensor_cdevs info) \<union> fst ` set (snd maps)
       \<and> (distinct (map fst (snd maps)) \<longrightarrow> distinct (map fst (snd maps')))"
proof -
  let ?m0 = "(AList.update name initial_SensorStatus (fst maps), snd maps)"
  from assms obtain m1 where
    a: "efold (ctor_cdev_request cim name) (cdev_request (throttling_info info)) ?m0 = Inr m1"
    and b: "efold (ctor_limit_info cim name) (limit_info (throttling_info info)) m1 = Inr maps'"
    by (auto simp add: ctor_sensor_def split: sum.splits)
  note A = ctor_cdev_request_loop [OF a]
  note B = ctor_limit_info_loop [OF b]
  have 0: "fst ` set (fst ?m0) = insert name (fst ` set (fst maps))"
    by (simp add: keys_update)
  show ?thesis
    using A B 0 by (auto simp add: pid_keys_fresh limit_keys_fresh sensor_cdevs_def
        split: if_splits)
qed

lemma ctor_inv_step:
  assumes inv: "ctor_inv seen maps"
    and step: "ctor_sensor cim (name, info) maps = Inr maps'"
    and fresh: "name \<notin> fst ` set seen"
  shows "ctor_inv (seen @ [(name, info)]) maps'"
proof -
  note K = ctor_sensor_keys [OF step]
  from inv have i1: "fst ` set (fst maps) = fst ` set seen"
    and i2: "\<forall>n info. (n, info) \<in> set seen \<longrightarrow>
            pid_keys (fst maps) n = set (cdev_request (throttling_info info))
            \<and> limit_keys (fst maps) n = fst ` set (limit_info (throttling_info info))"
    and i3: "distinct (map fst (snd maps))"
    and i4: "fst ` set (snd maps) = set (referenced_cdevs seen)"
    and i5: "\<forall>c. request_keys (snd maps) c
              = {n. \<exists>info. (n, info) \<in> set seen \<and> c \<in> set (sensor_cdevs info)}"
    by (simp_all add: ctor_inv_def)
  have n1: "fst ` set (fst maps') = fst ` set (seen @ [(name, info)])"
    using K i1 by auto
  have n2: "\<forall>n info'. (n, info') \<in> set (seen @ [(name, info)]) \<longrightarrow>
            pid_keys (fst maps') n = set (cdev_request (throttling_info info'))
            \<and> limit_keys (fst maps') n = fst ` set (limit_info (throttling_info info'))"
  proof (intro allI impI)
    fix n info'
    assume mem: "(n, info') \<in> set (seen @ [(name, info)])"
    show "pid_keys (fst maps') n = set (cdev_request (throttling_info info'))
            \<and> limit_keys (fst maps') n = fst ` set (limit_info (throttling_info info'))"
    proof (cases "(n, info') \<in> set seen")
      case True
      then have "n \<in> fst ` set seen" by force
      with fresh have "n \<noteq> name" by blast
      with K i2 True show ?thesis by simp
    next
      case False
      with mem have "n = name" "info' = info" by simp_all
      with K show ?thesis by simp
    qed
  qed
  have n3: "distinct (map fst (snd maps'))" using K i3 by blast
  have n4: "fst ` set (snd maps') = set (referenced_cdevs (seen @ [(name, info)]))"
    using K i4 by (auto simp add: referenced_cdevs_def)
  have n5: "\<forall>c. request_keys (snd maps') c
              = {n. \<exists>info'. (n, info') \<in> set (seen @ [(name, info)])
                      \<and> c \<in> set (sensor_cdevs info')}"
    using K i5 by auto
  from n1 n2 n3 n4 n5 show ?thesis
    unfolding ctor_inv_def by blast
qed

lemma ctor_inv_loop:
  assumes "efold (ctor_sensor cim) xs maps = Inr maps'"
    and "ctor_inv seen maps"
    and "distinct (map fst (seen @ xs))"
  shows "ctor_inv (seen @ xs) maps'"
  using assms
proof (induction xs arbitrary: seen maps)
  case Nil
  then show ?case by simp
next
  case (Cons x xs)
  obtain name info where x: "x = (name, info)" by (cases x)
  from Cons.prems(1) obtain m1 where
    step: "ctor_sensor cim (name, info) maps = Inr m1"
    and rest: "efold (ctor_sensor cim) xs m1 = Inr maps'"
    by (auto simp add: x split: sum.splits)
  from Cons.prems(3) have fresh: "name \<notin> fst ` set seen"
    by (auto simp add: x)
  have inv1: "ctor_inv (seen @ [(name, info)]) m1"
    by (rule ctor_inv_step [OF Cons.prems(2) step fresh])
  have "distinct (map fst ((seen @ [(name, info)]) @ xs))"
    using Cons.prems(3) by (simp add: x)
  from Cons.IH [OF rest inv1 this] show ?case by (simp add: x)
qed

lemma ctor_inv_empty: "ctor_inv [] ([], [])"
  by (simp add: ctor_inv_def pid_keys_def limit_keys_def request_keys_def referenced_cdevs_def)


section \<open>The lookups of the aggregation loop\<close>










section \<open>The aggregation over sensors\<close>

subsection \<open>The request maps keep their keys\<close>

lemma map_set_at_keys:
  assumes "map_set_at m k v = Inr m'"
  shows "fst ` set m' = fst ` set m"
proof -
  from assms have m': "m' = AList.update k v m" and "map_of m k \<noteq> None"
    by (auto simp add: map_set_at_def split: option.splits)
  then have "k \<in> fst ` set m" by (simp add: map_of_eq_None_iff)
  with m' show ?thesis by (auto simp add: keys_update)
qed

lemma cdev_request_step_keys:
  assumes "cdev_request_step cim ti budget tw i st = Inr st'"
  shows "fst ` set (pid_request_map st') = fst ` set (pid_request_map st)
         \<and> hard_limit_request_map st' = hard_limit_request_map st"
proof (cases "cdev_request ti ! i \<noteq> []")
  case False
  with assms show ?thesis by (simp add: cdev_request_step_def)
next
  case True
  with assms obtain m where
    m: "map_set_at (pid_request_map st) (cdev_request ti ! i) m = Inr (pid_request_map st')"
    and "hard_limit_request_map st' = hard_limit_request_map st"
    by (auto simp add: cdev_request_step_def Let_def split: if_splits sum.splits)
  with map_set_at_keys [OF m] show ?thesis by simp
qed

lemma cdev_request_loop_keys:
  assumes "efold (cdev_request_step cim ti budget tw) is st = Inr st'"
  shows "fst ` set (pid_request_map st') = fst ` set (pid_request_map st)
         \<and> hard_limit_request_map st' = hard_limit_request_map st"
  using assms
proof (induction "is" arbitrary: st)
  case Nil
  then show ?case by simp
next
  case (Cons i "is")
  from Cons.prems obtain st1 where
    step: "cdev_request_step cim ti budget tw i st = Inr st1"
    and rest: "efold (cdev_request_step cim ti budget tw) is st1 = Inr st'"
    by (auto split: sum.splits)
  from cdev_request_step_keys [OF step] Cons.IH [OF rest] show ?case by simp
qed

lemma requestCdevByPower_keys:
  assumes "requestCdevByPower cim st info budget = Inr r"
  shows "fst ` set (pid_request_map (snd r)) = fst ` set (pid_request_map st)
         \<and> hard_limit_request_map (snd r) = hard_limit_request_map st"
proof (cases "float_to_bool (total_weight_of (throttling_info info))")
  case False
  with assms show ?thesis
    by (auto simp add: requestCdevByPower_def Let_def split: if_splits)
next
  case True
  with assms obtain st' where
    "efold (cdev_request_step cim (throttling_info info) budget
             (total_weight_of (throttling_info info)))
       [0..<length (cdev_request (throttling_info info))] st = Inr st'"
    and "r = (True, st')"
    by (auto simp add: requestCdevByPower_def Let_def split: if_splits sum.splits)
  with cdev_request_loop_keys show ?thesis by fastforce
qed

lemma pidPowerCalculator_maps:
  "pid_request_map (snd (pidPowerCalculator temp info st elapsed)) = pid_request_map st"
  "hard_limit_request_map (snd (pidPowerCalculator temp info st elapsed))
     = hard_limit_request_map st"
  by (simp_all add: pidPowerCalculator_def Let_def)

lemma pid_stage_keys:
  assumes "pid_stage cim temp info elapsed st = Inr st'"
  shows "fst ` set (pid_request_map st') = fst ` set (pid_request_map st)
         \<and> hard_limit_request_map st' = hard_limit_request_map st"
proof (cases "pid_request_map st = []")
  case True
  with assms show ?thesis by (simp add: pid_stage_def)
next
  case False
  with assms obtain r where
    "requestCdevByPower cim (snd (pidPowerCalculator temp info st elapsed)) info
       (fst (pidPowerCalculator temp info st elapsed)) = Inr r"
    and "st' = snd r"
    by (auto simp add: pid_stage_def split: prod.splits sum.splits)
  with requestCdevByPower_keys pidPowerCalculator_maps show ?thesis by metis
qed

lemma limit_loop_keys:
  assumes "efold
             (\<lambda>limit_info_pair st.
                case map_set_at (hard_limit_request_map st) (fst limit_info_pair)
                       (snd limit_info_pair target_state) of
                  Inl e \<Rightarrow> Inl e
                | Inr m \<Rightarrow> Inr (st\<lparr>hard_limit_request_map := m\<rparr>))
             ls st = Inr st'"
  shows "fst ` set (hard_limit_request_map st') = fst ` set (hard_limit_request_map st)
         \<and> pid_request_map st' = pid_request_map st"
  using assms
proof (induction ls arbitrary: st)
  case Nil
  then show ?case by simp
next
  case (Cons lp ls)
  from Cons.prems obtain m where
    m: "map_set_at (hard_limit_request_map st) (fst lp) (snd lp target_state) = Inr m"
    and rest: "efold
             (\<lambda>limit_info_pair st.
                case map_set_at (hard_limit_request_map st) (fst limit_info_pair)
                       (snd limit_info_pair target_state) of
                  Inl e \<Rightarrow> Inl e
                | Inr m \<Rightarrow> Inr (st\<lparr>hard_limit_request_map := m\<rparr>))
             ls (st\<lparr>hard_limit_request_map := m\<rparr>) = Inr st'"
    by (auto split: sum.splits)
  from map_set_at_keys [OF m] Cons.IH [OF rest] show ?case by simp
qed

lemma limit_stage_keys:
  assumes "limit_stage info st = Inr st'"
  shows "fst ` set (hard_limit_request_map st') = fst ` set (hard_limit_request_map st)
         \<and> pid_request_map st' = pid_request_map st"
proof (cases "hard_limit_request_map st = []")
  case True
  with assms show ?thesis by (simp add: limit_stage_def)
next
  case False
  with assms show ?thesis
    by (simp add: limit_stage_def requestCdevBySeverity_def Let_def limit_loop_keys)
qed

lemma commit_status_maps:
  "pid_request_map (commit_status temp status st) = pid_request_map st"
  "hard_limit_request_map (commit_status temp status st) = hard_limit_request_map st"
  by (simp_all add: commit_status_def Let_def)

subsection \<open>What the aggregation loop computes\<close>

lemma map_at_Inr: "map_at m k = Inr v \<longleftrightarrow> map_of m k = Some v"
  by (simp add: map_at_def split: option.splits)

lemma guarded_request:
  assumes "(if m \<noteq> [] then map_at m k else Inr 0) = Inr v"
  shows "v = request_or_zero m k"
proof (cases "m = []")
  case True
  with assms show ?thesis by (simp add: request_or_zero_def)
next
  case False
  with assms have "map_of m k = Some v" by (simp add: map_at_Inr)
  then show ?thesis by (simp add: request_or_zero_def)
qed

lemma aggregate_loop_result:
  assumes "aggregate_loop name st csm = Inr (csm', upd)"
  shows "csm' = map (\<lambda>p. (fst p, AList.update name (sensor_request st (fst p)) (snd p))) csm
         \<and> upd = map fst (filter (\<lambda>p. map_of (snd p) name
                                        \<noteq> Some (sensor_request st (fst p))) csm)
         \<and> (\<forall>p \<in> set csm. name \<in> fst ` set (snd p))"
  using assms
proof (induction csm arbitrary: csm' upd)
  case Nil
  then show ?case by simp
next
  case (Cons p csm)
  from Cons.prems obtain pid_max limit_max cur rest' updated where
    pm: "(if pid_request_map st \<noteq> [] then map_at (pid_request_map st) (fst p) else Inr 0)
           = Inr pid_max"
    and lm: "(if hard_limit_request_map st \<noteq> []
              then map_at (hard_limit_request_map st) (fst p) else Inr 0) = Inr limit_max"
    and cur: "map_at (snd p) name = Inr cur"
    and rest: "aggregate_loop name st csm = Inr (rest', updated)"
    and res: "(csm', upd) =
        (if cur \<noteq> max pid_max limit_max
         then ((fst p, AList.update name (max pid_max limit_max) (snd p)) # rest',
               fst p # updated)
         else (p # rest', updated))"
    by (auto simp add: Let_def split: sum.splits if_splits)
  from guarded_request [OF pm] guarded_request [OF lm]
  have r: "max pid_max limit_max = sensor_request st (fst p)"
    by (simp add: sensor_request_def)
  from cur have c: "map_of (snd p) name = Some cur" by (simp add: map_at_Inr)
  then have own: "name \<in> fst ` set (snd p)"
    by (metis map_of_eq_None_iff option.distinct(1))
  note IH = Cons.IH [OF rest]
  show ?case
  proof (cases "cur = sensor_request st (fst p)")
    case True
    with c have "AList.update name (sensor_request st (fst p)) (snd p) = snd p"
      by (simp add: update_triv)
    with True res r c IH own show ?thesis by simp
  next
    case False
    with res r c IH own show ?thesis by simp
  qed
qed

lemma aggregate_stage_empty:
  assumes "pid_request_map st = []" and "hard_limit_request_map st = []"
  shows "aggregate_stage name st csm = Inr (csm, [])" and "sensor_request st c = 0"
  using assms by (simp_all add: aggregate_stage_def sensor_request_def request_or_zero_def)

lemma map_of_map_snd:
  "map_of (map (\<lambda>p. (fst p, g (fst p) (snd p))) xs) k = map_option (g k) (map_of xs k)"
  by (induction xs) auto

lemma request_entry_aggregated:
  "request_entry (map (\<lambda>p. (fst p, AList.update name (r (fst p)) (snd p))) csm) c n =
     (case map_of csm c of None \<Rightarrow> None
      | Some req \<Rightarrow> if n = name then Some (r c) else map_of req n)"
  using map_of_map_snd [of "\<lambda>c req. AList.update name (r c) req" csm c]
  by (cases "map_of csm c") (simp_all add: request_entry_def update_conv')


subsection \<open>One round of the sensor loop\<close>

lemma process_reading_result:
  assumes "process_reading now name info st elapsed sleep temp status hl = Inr hl'"
  shows "\<exists>st3 agg.
           fst ` set (pid_request_map st3) = fst ` set (pid_request_map st)
           \<and> fst ` set (hard_limit_request_map st3) = fst ` set (hard_limit_request_map st)
           \<and> aggregate_stage name st3 (cdev_status_map (fst hl)) = Inr agg
           \<and> fst hl' = (fst hl)\<lparr>sensor_status_map :=
                                    AList.update name (st3\<lparr>last_update_time := now\<rparr>)
                                      (sensor_status_map (fst hl)),
                                  cdev_status_map := fst agg\<rparr>
           \<and> cooling_devices_to_update (snd hl')
               = cooling_devices_to_update (snd hl) @ snd agg"
proof -
  let ?st1 = "commit_status temp status st"
  from assms obtain st2 where
    s2: "pid_stage (cooling_device_info_map (fst hl)) temp info elapsed ?st1 = Inr st2"
    by (auto simp add: process_reading_def Let_def split: sum.splits)
  with assms obtain st3 where s3: "limit_stage info st2 = Inr st3"
    by (auto simp add: process_reading_def Let_def split: sum.splits)
  with assms s2 obtain agg where
    ag: "aggregate_stage name st3 (cdev_status_map (fst hl)) = Inr agg"
    by (auto simp add: process_reading_def Let_def split: sum.splits)
  from assms s2 s3 ag
  have res: "fst hl' = (fst hl)\<lparr>sensor_status_map :=
                                    AList.update name (st3\<lparr>last_update_time := now\<rparr>)
                                      (sensor_status_map (fst hl)),
                                  cdev_status_map := fst agg\<rparr>"
    "cooling_devices_to_update (snd hl') = cooling_devices_to_update (snd hl) @ snd agg"
    by (auto simp add: process_reading_def Let_def)
  from pid_stage_keys [OF s2] limit_stage_keys [OF s3]
  have "fst ` set (pid_request_map st3) = fst ` set (pid_request_map st)"
    "fst ` set (hard_limit_request_map st3) = fst ` set (hard_limit_request_map st)"
    by (simp_all add: commit_status_maps)
  with ag res show ?thesis by blast
qed

lemma watcher_sensor_step_unfold:
  assumes "map_of (sensor_status_map (fst hl)) name = Some st"
    and "map_of (sensor_info_map (fst hl)) name = Some info"
  shows "watcher_sensor_step files now uev name hl =
     (if \<not> is_monitor info then Inr hl
      else if now - last_update_time st
                < (if severity st \<noteq> NONE then passive_delay info else polling_delay info)
              \<and> (uev = {}
                  \<or> (if is_virtual_sensor info then trigger_sensor info else name) \<notin> uev)
      then Inr (fst hl,
                (snd hl)\<lparr>min_sleep_ms :=
                  (if (if severity st \<noteq> NONE then passive_delay info
                       else polling_delay info) - (now - last_update_time st)
                      < min_sleep_ms (snd hl)
                   then (if severity st \<noteq> NONE then passive_delay info
                         else polling_delay info) - (now - last_update_time st)
                   else min_sleep_ms (snd hl))\<rparr>)
      else (case readTemperature files (sensor_info_map (fst hl))
                   (sensor_status_map (fst hl)) name (is_virtual_sensor info) of
              Inl e \<Rightarrow> Inl e
            | Inr None \<Rightarrow> Inr hl
            | Inr (Some r) \<Rightarrow>
                process_reading now name info st (now - last_update_time st)
                  (if severity st \<noteq> NONE then passive_delay info else polling_delay info)
                  (fst r) (snd r) hl))"
  using assms by (simp add: watcher_sensor_step_def map_at_def Let_def)

lemma watcher_sensor_step_lookups:
  assumes "watcher_sensor_step files now uev name hl = Inr hl'"
  shows "\<exists>st info. map_of (sensor_status_map (fst hl)) name = Some st
           \<and> map_of (sensor_info_map (fst hl)) name = Some info"
proof (cases "map_of (sensor_status_map (fst hl)) name")
  case None
  with assms show ?thesis by (simp add: watcher_sensor_step_def map_at_def)
next
  case (Some st)
  show ?thesis
  proof (cases "map_of (sensor_info_map (fst hl)) name")
    case None
    with assms Some show ?thesis by (simp add: watcher_sensor_step_def map_at_def)
  next
    case (Some info)
    with \<open>map_of (sensor_status_map (fst hl)) name = Some st\<close> show ?thesis by simp
  qed
qed

lemma watcher_sensor_step_unmonitored:
  assumes run: "watcher_sensor_step files now uev name hl = Inr hl'"
    and st: "map_of (sensor_status_map (fst hl)) name = Some st"
    and info: "map_of (sensor_info_map (fst hl)) name = Some info"
    and mon: "\<not> is_monitor info"
  shows "hl' = hl"
  using run [unfolded watcher_sensor_step_unfold [OF st info, of files now uev]] mon
  by simp

lemma watcher_sensor_step_not_due:
  assumes run: "watcher_sensor_step files now uev name hl = Inr hl'"
    and st: "map_of (sensor_status_map (fst hl)) name = Some st"
    and info: "map_of (sensor_info_map (fst hl)) name = Some info"
    and mon: "is_monitor info"
    and skip: "now - last_update_time st
                < (if severity st \<noteq> NONE then passive_delay info else polling_delay info)
              \<and> (uev = {}
                  \<or> (if is_virtual_sensor info then trigger_sensor info else name) \<notin> uev)"
  shows "fst hl' = fst hl
         \<and> cooling_devices_to_update (snd hl') = cooling_devices_to_update (snd hl)"
proof -
  from run [unfolded watcher_sensor_step_unfold [OF st info, of files now uev]]
  have "Inr (fst hl,
             (snd hl)\<lparr>min_sleep_ms :=
               (if (if severity st \<noteq> NONE then passive_delay info
                    else polling_delay info) - (now - last_update_time st)
                   < min_sleep_ms (snd hl)
                then (if severity st \<noteq> NONE then passive_delay info
                      else polling_delay info) - (now - last_update_time st)
                else min_sleep_ms (snd hl))\<rparr>) = (Inr hl' :: error + _)"
    by (simp only: mon skip if_True if_False simp_thms)
  then show ?thesis by auto
qed

lemma watcher_sensor_step_read:
  assumes run: "watcher_sensor_step files now uev name hl = Inr hl'"
    and st: "map_of (sensor_status_map (fst hl)) name = Some st"
    and info: "map_of (sensor_info_map (fst hl)) name = Some info"
    and mon: "is_monitor info"
    and due: "\<not> (now - last_update_time st
                < (if severity st \<noteq> NONE then passive_delay info else polling_delay info)
              \<and> (uev = {}
                  \<or> (if is_virtual_sensor info then trigger_sensor info else name) \<notin> uev))"
  shows "(case readTemperature files (sensor_info_map (fst hl))
                   (sensor_status_map (fst hl)) name (is_virtual_sensor info) of
              Inl e \<Rightarrow> Inl e
            | Inr None \<Rightarrow> Inr hl
            | Inr (Some r) \<Rightarrow>
                process_reading now name info st (now - last_update_time st)
                  (if severity st \<noteq> NONE then passive_delay info else polling_delay info)
                  (fst r) (snd r) hl) = Inr hl'"
  using run [unfolded watcher_sensor_step_unfold [OF st info, of files now uev]]
  by (simp only: mon due if_True if_False simp_thms)

lemma watcher_sensor_step_result:
  assumes "watcher_sensor_step files now uev name hl = Inr hl'"
  shows "(fst hl' = fst hl
          \<and> cooling_devices_to_update (snd hl') = cooling_devices_to_update (snd hl))
       \<or> (\<exists>st st3 agg.
           map_of (sensor_status_map (fst hl)) name = Some st
           \<and> fst ` set (pid_request_map st3) = fst ` set (pid_request_map st)
           \<and> fst ` set (hard_limit_request_map st3) = fst ` set (hard_limit_request_map st)
           \<and> aggregate_stage name st3 (cdev_status_map (fst hl)) = Inr agg
           \<and> fst hl' = (fst hl)\<lparr>sensor_status_map :=
                                    AList.update name (st3\<lparr>last_update_time := now\<rparr>)
                                      (sensor_status_map (fst hl)),
                                  cdev_status_map := fst agg\<rparr>
           \<and> cooling_devices_to_update (snd hl')
               = cooling_devices_to_update (snd hl) @ snd agg)"
proof -
  from watcher_sensor_step_lookups [OF assms] obtain st info where
    st: "map_of (sensor_status_map (fst hl)) name = Some st"
    and info: "map_of (sensor_info_map (fst hl)) name = Some info"
    by blast
  show ?thesis
  proof (cases "is_monitor info")
    case False
    from watcher_sensor_step_unmonitored [OF assms st info False] show ?thesis by simp
  next
    case mon: True
    show ?thesis
    proof (cases "now - last_update_time st
                < (if severity st \<noteq> NONE then passive_delay info else polling_delay info)
              \<and> (uev = {}
                  \<or> (if is_virtual_sensor info then trigger_sensor info else name) \<notin> uev)")
      case True
      from watcher_sensor_step_not_due [OF assms st info mon True] show ?thesis by blast
    next
      case False
      note rd = watcher_sensor_step_read [OF assms st info mon False]
      show ?thesis
      proof (cases "readTemperature files (sensor_info_map (fst hl))
                      (sensor_status_map (fst hl)) name (is_virtual_sensor info)")
        case (Inl e)
        with rd show ?thesis by simp
      next
        case (Inr res)
        show ?thesis
        proof (cases res)
          case None
          with Inr rd have "hl' = hl" by simp
          then show ?thesis by simp
        next
          case (Some r)
          with Inr rd
          have "process_reading now name info st (now - last_update_time st)
                  (if severity st \<noteq> NONE then passive_delay info else polling_delay info)
                  (fst r) (snd r) hl = Inr hl'"
            by simp
          from process_reading_result [OF this] obtain st3 agg where
            "fst ` set (pid_request_map st3) = fst ` set (pid_request_map st)"
            "fst ` set (hard_limit_request_map st3) = fst ` set (hard_limit_request_map st)"
            "aggregate_stage name st3 (cdev_status_map (fst hl)) = Inr agg"
            "fst hl' = (fst hl)\<lparr>sensor_status_map :=
                                    AList.update name (st3\<lparr>last_update_time := now\<rparr>)
                                      (sensor_status_map (fst hl)),
                                  cdev_status_map := fst agg\<rparr>"
            "cooling_devices_to_update (snd hl')
               = cooling_devices_to_update (snd hl) @ snd agg"
            by (elim exE conjE)
          with st show ?thesis
            by (intro disjI2 exI conjI)
        qed
      qed
    qed
  qed
qed

subsection \<open>The request status after one sensor's aggregation\<close>

lemma map_of_aggregated:
  "map_of (map (\<lambda>p. (fst p, AList.update name (r (fst p)) (snd p))) csm) c
     = map_option (AList.update name (r c)) (map_of csm c)"
  using map_of_map_snd [of "\<lambda>c req. AList.update name (r c) req" csm c] by simp

lemma aggregate_stage_cases:
  assumes "aggregate_stage name st csm = Inr agg"
  obtains (idle) "pid_request_map st = []" "hard_limit_request_map st = []"
      "agg = (csm, [])"
  | (active) "pid_request_map st \<noteq> [] \<or> hard_limit_request_map st \<noteq> []"
      "fst agg = map (\<lambda>p. (fst p, AList.update name (sensor_request st (fst p)) (snd p))) csm"
      "snd agg = map fst (filter (\<lambda>p. map_of (snd p) name
                                        \<noteq> Some (sensor_request st (fst p))) csm)"
      "\<forall>p \<in> set csm. name \<in> fst ` set (snd p)"
proof (cases "pid_request_map st \<noteq> [] \<or> hard_limit_request_map st \<noteq> []")
  case False
  with assms have "agg = (csm, [])" by (simp add: aggregate_stage_def)
  with False idle show ?thesis by simp
next
  case True
  with assms have "aggregate_loop name st csm = Inr (fst agg, snd agg)"
    by (simp add: aggregate_stage_def)
  from aggregate_loop_result [OF this] True active show ?thesis by simp
qed

lemma aggregate_stage_keys:
  assumes "aggregate_stage name st csm = Inr agg"
  shows "map fst (fst agg) = map fst csm"
  using assms by (cases rule: aggregate_stage_cases) (simp_all add: comp_def)

lemma aggregate_stage_other:
  assumes "aggregate_stage name st csm = Inr agg" and "n \<noteq> name"
  shows "request_entry (fst agg) c n = request_entry csm c n"
  using assms(1)
proof (cases rule: aggregate_stage_cases)
  case idle
  then show ?thesis by simp
next
  case active
  with assms(2) request_entry_aggregated [of name "sensor_request st" csm c n]
  show ?thesis
    by (simp add: request_entry_def split: option.splits)
qed

lemma aggregate_stage_own:
  assumes "aggregate_stage name st csm = Inr agg"
    and "pid_request_map st \<noteq> [] \<or> hard_limit_request_map st \<noteq> []"
    and "map_of csm c = Some req"
  shows "request_entry (fst agg) c name = Some (sensor_request st c)"
  using assms(1)
proof (cases rule: aggregate_stage_cases)
  case idle
  with assms(2) show ?thesis by simp
next
  case active
  with assms(3) request_entry_aggregated [of name "sensor_request st" csm c name]
  show ?thesis by simp
qed

lemma aggregate_stage_inner:
  assumes "aggregate_stage name st csm = Inr agg"
    and "map_of (fst agg) c = Some req'"
  shows "\<exists>req. map_of csm c = Some req \<and> fst ` set req' = fst ` set req
           \<and> (distinct (map fst req) \<longrightarrow> distinct (map fst req'))"
  using assms(1)
proof (cases rule: aggregate_stage_cases)
  case idle
  with assms(2) show ?thesis by simp
next
  case active
  with assms(2) obtain req where
    req: "map_of csm c = Some req"
    and req': "req' = AList.update name (sensor_request st c) req"
    using map_of_aggregated [of name "sensor_request st" csm c] by auto
  from req have "(c, req) \<in> set csm" by (rule map_of_SomeD)
  with active(4) have "name \<in> fst ` set req" by fastforce
  then have "fst ` set req' = fst ` set req"
    by (auto simp add: req' keys_update)
  with req req' show ?thesis by (simp add: distinct_update)
qed

lemma aggregate_stage_defined:
  assumes "aggregate_stage name st csm = Inr agg"
  shows "request_entry (fst agg) c n = None \<longleftrightarrow> request_entry csm c n = None"
proof (cases "map_of (fst agg) c")
  case None
  with aggregate_stage_keys [OF assms] have "map_of csm c = None"
    by (metis map_of_eq_None_iff set_map)
  with None show ?thesis by (simp add: request_entry_def)
next
  case (Some req')
  from aggregate_stage_inner [OF assms Some] obtain req where
    "map_of csm c = Some req" "fst ` set req' = fst ` set req"
    by blast
  with Some show ?thesis
    by (simp add: request_entry_def map_of_eq_None_iff)
qed


subsection \<open>The loop keeps the status maps consistent\<close>

lemma sensor_request_keys_empty:
  assumes "fst ` set (pid_request_map st) = {}" and "fst ` set (hard_limit_request_map st) = {}"
  shows "sensor_request st c = 0"
  using assms by (simp add: sensor_request_def request_or_zero_def)

lemma sensor_request_stamp [simp]:
  "sensor_request (st\<lparr>last_update_time := now\<rparr>) c = sensor_request st c"
  by (simp add: sensor_request_def)

lemma processed_step_inv:
  assumes inv: "status_inv h"
    and st: "map_of (sensor_status_map h) name = Some st"
    and kp: "fst ` set (pid_request_map st3) = fst ` set (pid_request_map st)"
    and kl: "fst ` set (hard_limit_request_map st3) = fst ` set (hard_limit_request_map st)"
    and agg: "aggregate_stage name st3 (cdev_status_map h) = Inr agg"
    and ssm': "ssm' = AList.update name (st3\<lparr>last_update_time := now\<rparr>) (sensor_status_map h)"
  shows "status_inv (h\<lparr>sensor_status_map := ssm', cdev_status_map := fst agg\<rparr>)"
proof -
  let ?ssm = "sensor_status_map h"
  let ?csm = "cdev_status_map h"
  from inv have d1: "distinct (map fst ?ssm)" and d2: "distinct (map fst ?csm)"
    and d3: "\<And>c req. map_of ?csm c = Some req \<Longrightarrow> distinct (map fst req)"
    and i4: "\<And>c n v. request_entry ?csm c n = Some v \<Longrightarrow>
            \<exists>st. map_of ?ssm n = Some st \<and> v = sensor_request st c"
    and i5: "\<And>n st c. map_of ?ssm n = Some st \<Longrightarrow>
            c \<in> fst ` set (pid_request_map st) \<union> fst ` set (hard_limit_request_map st) \<Longrightarrow>
            request_entry ?csm c n \<noteq> None"
    unfolding status_inv_def by blast+
  have look: "map_of ssm' n = (if n = name then Some (st3\<lparr>last_update_time := now\<rparr>)
                               else map_of ?ssm n)" for n
    by (simp add: ssm' update_conv')
  have n1: "distinct (map fst ssm')"
    using d1 by (simp add: ssm' distinct_update)
  have n2: "distinct (map fst (fst agg))"
    using d2 aggregate_stage_keys [OF agg] by simp
  have n3: "distinct (map fst req')" if "map_of (fst agg) c = Some req'" for c req'
    using aggregate_stage_inner [OF agg that] d3 by blast
  have n4: "\<exists>st'. map_of ssm' n = Some st' \<and> v = sensor_request st' c"
    if e: "request_entry (fst agg) c n = Some v" for c n v
  proof (cases "n = name")
    case False
    with aggregate_stage_other [OF agg False, of c] e
    have "request_entry ?csm c n = Some v" by simp
    from i4 [OF this] False show ?thesis by (simp add: look)
  next
    case True
    have "v = sensor_request st3 c"
      using agg
    proof (cases rule: aggregate_stage_cases)
      case idle
      with e True have "request_entry ?csm c name = Some v" by simp
      from i4 [OF this] st have "v = sensor_request st c" by simp
      moreover from idle kp kl have "sensor_request st c = 0"
        by (intro sensor_request_keys_empty) simp_all
      moreover from idle have "sensor_request st3 c = 0"
        by (intro sensor_request_keys_empty) simp_all
      ultimately show ?thesis by simp
    next
      case active
      from e True aggregate_stage_defined [OF agg, of c name]
      have "request_entry ?csm c name \<noteq> None" by simp
      then obtain req where "map_of ?csm c = Some req"
        by (auto simp add: request_entry_def split: option.splits)
      from aggregate_stage_own [OF agg active(1) this] e True show ?thesis by simp
    qed
    with True show ?thesis by (simp add: look)
  qed
  have n5: "request_entry (fst agg) c n \<noteq> None"
    if m: "map_of ssm' n = Some st'"
      and c: "c \<in> fst ` set (pid_request_map st') \<union> fst ` set (hard_limit_request_map st')"
    for n st' c
  proof -
    have "request_entry ?csm c n \<noteq> None"
    proof (cases "n = name")
      case True
      with m have "st' = st3\<lparr>last_update_time := now\<rparr>" by (simp add: look)
      with c kp kl
      have "c \<in> fst ` set (pid_request_map st) \<union> fst ` set (hard_limit_request_map st)"
        by simp
      from i5 [OF st this] True show ?thesis by simp
    next
      case False
      with m have "map_of ?ssm n = Some st'" by (simp add: look)
      from i5 [OF this c] show ?thesis .
    qed
    with aggregate_stage_defined [OF agg, of c n] show ?thesis by simp
  qed
  show ?thesis
    unfolding status_inv_def
    using n1 n2 n3 n4 n5 by simp
qed

lemma watcher_sensor_step_inv:
  assumes "watcher_sensor_step files now uev name hl = Inr hl'"
    and "status_inv (fst hl)"
  shows "status_inv (fst hl')"
  using watcher_sensor_step_result [OF assms(1)]
proof (elim disjE exE conjE)
  assume "fst hl' = fst hl"
  with assms(2) show ?thesis by simp
next
  fix st st3 agg
  assume "map_of (sensor_status_map (fst hl)) name = Some st"
    "fst ` set (pid_request_map st3) = fst ` set (pid_request_map st)"
    "fst ` set (hard_limit_request_map st3) = fst ` set (hard_limit_request_map st)"
    "aggregate_stage name st3 (cdev_status_map (fst hl)) = Inr agg"
    and h': "fst hl' = (fst hl)\<lparr>sensor_status_map :=
                                    AList.update name (st3\<lparr>last_update_time := now\<rparr>)
                                      (sensor_status_map (fst hl)),
                                  cdev_status_map := fst agg\<rparr>"
  from processed_step_inv [OF assms(2) this(1-4) refl] show ?thesis
    by (simp only: h')
qed

lemma watcher_loop_inv:
  assumes "efold (watcher_sensor_step files now uev) names hl = Inr hl'"
    and "status_inv (fst hl)"
  shows "status_inv (fst hl')"
  using assms
proof (induction names arbitrary: hl)
  case Nil
  then show ?case by simp
next
  case (Cons n names)
  from Cons.prems(1) obtain hl1 where
    step: "watcher_sensor_step files now uev n hl = Inr hl1"
    and rest: "efold (watcher_sensor_step files now uev) names hl1 = Inr hl'"
    by (auto split: sum.splits)
  from Cons.IH [OF rest watcher_sensor_step_inv [OF step Cons.prems(2)]]
  show ?case .
qed

subsection \<open>The state written to a cooling device\<close>

lemma foldl_max_Max: "foldl max (a::int) xs = Max (insert a (set xs))"
proof (induction xs arbitrary: a)
  case Nil
  then show ?case by simp
next
  case (Cons x xs)
  have "Max (insert (max a x) (set xs)) = Max (insert a (insert x (set xs)))"
  proof (cases "set xs = {}")
    case True
    then show ?thesis by (simp add: max.commute)
  next
    case False
    then show ?thesis
      by (simp add: max.assoc)
  qed
  with Cons.IH [of "max a x"] show ?case by simp
qed

lemma max_state_of_fold: "foldl (\<lambda>max_state sensor_request_pair.
              if max_state < snd sensor_request_pair then snd sensor_request_pair
              else max_state) (a::int) req = foldl max a (map snd req)"
  by (induction req arbitrary: a) (simp_all add: max_def)

lemma max_state_of_Max: "max_state_of req = Max (insert 0 (snd ` set req))"
  by (simp add: max_state_of_def max_state_of_fold foldl_max_Max)

lemma cdev_aggregate_Max:
  "cdev_aggregate ssm c = Max (insert 0 ((\<lambda>p. sensor_request (snd p) c) ` set ssm))"
  by (simp add: cdev_aggregate_def foldl_max_Max)

lemma sensor_request_nonzero:
  assumes "sensor_request st c \<noteq> 0"
  shows "c \<in> fst ` set (pid_request_map st) \<union> fst ` set (hard_limit_request_map st)"
proof (rule ccontr)
  assume "c \<notin> fst ` set (pid_request_map st) \<union> fst ` set (hard_limit_request_map st)"
  then have "map_of (pid_request_map st) c = None"
    "map_of (hard_limit_request_map st) c = None"
    by (simp_all add: map_of_eq_None_iff)
  then have "sensor_request st c = 0"
    by (simp add: sensor_request_def request_or_zero_def)
  with assms show False by simp
qed

lemma status_inv_max_state:
  assumes inv: "status_inv h" and req: "map_of (cdev_status_map h) c = Some req"
  shows "max_state_of req = cdev_aggregate (sensor_status_map h) c"
proof -
  let ?ssm = "sensor_status_map h"
  from inv have d1: "distinct (map fst ?ssm)"
    and i4: "\<And>c n v. request_entry (cdev_status_map h) c n = Some v \<Longrightarrow>
            \<exists>st. map_of ?ssm n = Some st \<and> v = sensor_request st c"
    and i5: "\<And>n st c. map_of ?ssm n = Some st \<Longrightarrow>
            c \<in> fst ` set (pid_request_map st) \<union> fst ` set (hard_limit_request_map st) \<Longrightarrow>
            request_entry (cdev_status_map h) c n \<noteq> None"
    unfolding status_inv_def by blast+
  from inv req have d3: "distinct (map fst req)"
    unfolding status_inv_def by blast
  have entry: "request_entry (cdev_status_map h) c n = map_of req n" for n
    by (simp add: request_entry_def req)
  have "insert 0 (snd ` set req) = insert 0 ((\<lambda>p. sensor_request (snd p) c) ` set ?ssm)"
  proof (intro equalityI subsetI)
    fix v assume "v \<in> insert 0 (snd ` set req)"
    then show "v \<in> insert 0 ((\<lambda>p. sensor_request (snd p) c) ` set ?ssm)"
    proof
      assume "v = 0" then show ?thesis by simp
    next
      assume "v \<in> snd ` set req"
      then obtain n where "(n, v) \<in> set req" by auto
      with d3 have "map_of req n = Some v" by simp
      with i4 [of c n v] entry obtain st where
        "map_of ?ssm n = Some st" "v = sensor_request st c" by auto
      then have "(n, st) \<in> set ?ssm" by (auto dest: map_of_SomeD)
      with \<open>v = sensor_request st c\<close> show ?thesis by force
    qed
  next
    fix v assume "v \<in> insert 0 ((\<lambda>p. sensor_request (snd p) c) ` set ?ssm)"
    then show "v \<in> insert 0 (snd ` set req)"
    proof
      assume "v = 0" then show ?thesis by simp
    next
      assume "v \<in> (\<lambda>p. sensor_request (snd p) c) ` set ?ssm"
      then obtain n st where mem: "(n, st) \<in> set ?ssm" and v: "v = sensor_request st c"
        by auto
      show ?thesis
      proof (cases "v = 0")
        case True
        then show ?thesis by simp
      next
        case False
        from mem d1 have m: "map_of ?ssm n = Some st" by simp
        from False v sensor_request_nonzero
        have "c \<in> fst ` set (pid_request_map st) \<union> fst ` set (hard_limit_request_map st)"
          by blast
        from i5 [OF m this] entry obtain w where w: "map_of req n = Some w" by auto
        with i4 [of c n w] entry m have "w = v" by (simp add: v)
        with w have "(n, v) \<in> set req" by (auto dest: map_of_SomeD)
        then show ?thesis by force
      qed
    qed
  qed
  then show ?thesis by (simp add: max_state_of_Max cdev_aggregate_Max)
qed

lemma updateCoolingDevices_writes:
  assumes "updateCoolingDevices csm upd = Inr writes"
  shows "map fst writes = upd
         \<and> (\<forall>w \<in> set writes. \<exists>req. map_of csm (fst w) = Some req \<and> snd w = max_state_of req)"
  using assms
proof (induction upd arbitrary: writes)
  case Nil
  then show ?case by simp
next
  case (Cons c upd)
  from Cons.prems obtain req rest where
    req: "map_of csm c = Some req"
    and rest: "updateCoolingDevices csm upd = Inr rest"
    and w: "writes = (c, max_state_of req) # rest"
    by (auto simp add: map_at_def split: sum.splits option.splits)
  from Cons.IH [OF rest] req w show ?case by simp
qed

lemma callback_result:
  assumes "thermalWatcherCallbackFunc kmin files now uev h = Inr (h', writes, ts, sl)"
  shows "\<exists>l'. efold (watcher_sensor_step files now uev) (map fst (sensor_status_map h))
                 (h, \<lparr>temps = [], cooling_devices_to_update = [],
                      min_sleep_ms = 2147483647\<rparr>) = Inr (h', l')
               \<and> map fst writes = cooling_devices_to_update l'
               \<and> (\<forall>w \<in> set writes. \<exists>req. map_of (cdev_status_map h') (fst w) = Some req
                                          \<and> snd w = max_state_of req)"
proof -
  from assms obtain hl where
    run: "efold (watcher_sensor_step files now uev) (map fst (sensor_status_map h))
            (h, \<lparr>temps = [], cooling_devices_to_update = [],
                 min_sleep_ms = 2147483647\<rparr>) = Inr hl"
    by (auto simp add: thermalWatcherCallbackFunc_def split: sum.splits)
  with assms have h': "h' = fst hl"
    and wr: "(if cooling_devices_to_update (snd hl) \<noteq> []
              then updateCoolingDevices (cdev_status_map (fst hl))
                     (cooling_devices_to_update (snd hl))
              else Inr []) = Inr writes"
    by (auto simp add: thermalWatcherCallbackFunc_def split: sum.splits)
  have "map fst writes = cooling_devices_to_update (snd hl)
        \<and> (\<forall>w \<in> set writes. \<exists>req. map_of (cdev_status_map (fst hl)) (fst w) = Some req
                                   \<and> snd w = max_state_of req)"
  proof (cases "cooling_devices_to_update (snd hl) = []")
    case True
    with wr show ?thesis by auto
  next
    case False
    with wr updateCoolingDevices_writes show ?thesis by simp
  qed
  with run h' show ?thesis by (intro exI [of _ "snd hl"]) simp
qed

text \<open>
  Claim C5. Between iterations the status maps are consistent: every entry of a device's
  request status is the request its sensor holds, the larger of the sensor's
  \<^verbatim>\<open>pid_request_map\<close> and \<^verbatim>\<open>hard_limit_request_map\<close> entries for the device. From such
  a state, every integer that an iteration of the control loop writes to a cooling device
  is the maximum of these requests over all sensors, floored at 0, and the state after the
  iteration is consistent again. The constructor builds a consistent state, as shown
  further down.
\<close>

theorem written_state_is_max_request:
  assumes run: "thermalWatcherCallbackFunc kmin files now uev h = Inr (h', writes, ts, sl)"
    and inv: "status_inv h"
  shows "(\<forall>w \<in> set writes. snd w = cdev_aggregate (sensor_status_map h') (fst w))
         \<and> status_inv h'"
proof -
  from callback_result [OF run] obtain l' where
    loop: "efold (watcher_sensor_step files now uev) (map fst (sensor_status_map h))
             (h, \<lparr>temps = [], cooling_devices_to_update = [],
                  min_sleep_ms = 2147483647\<rparr>) = Inr (h', l')"
    and wr: "\<forall>w \<in> set writes. \<exists>req. map_of (cdev_status_map h') (fst w) = Some req
                                   \<and> snd w = max_state_of req"
    by blast
  from watcher_loop_inv [OF loop] inv have inv': "status_inv h'" by simp
  have "snd w = cdev_aggregate (sensor_status_map h') (fst w)" if "w \<in> set writes" for w
  proof -
    from wr that obtain req where
      "map_of (cdev_status_map h') (fst w) = Some req" "snd w = max_state_of req"
      by blast
    with status_inv_max_state [OF inv'] show ?thesis by simp
  qed
  with inv' show ?thesis by blast
qed

subsection \<open>Two iterations on the example state\<close>

lemmas ex_defs =
  ex_helper_0_def ex_helper_1_def ex_helper_2_def ex_status_a_def ex_status_b_def
  ex_files_1_def ex_files_2_def ex_reading_def ex_sensors_def ex_sensor_a_def
  ex_sensor_b_def ex_sensor_def ex_throttling_def ex_cdevs_def ex_limits_def
  initial_SensorStatus_def

lemmas loop_defs =
  thermalWatcherCallbackFunc_def watcher_sensor_step_def process_reading_def
  commit_status_def pid_stage_def limit_stage_def aggregate_stage_def
  readTemperature_def getSeverityFromThresholds_def severity_scan_order_def
  severity_step_def pidPowerCalculator_def pid_target_state_def hidl_enum_range_def
  requestCdevByPower_def total_weight_of_def cdev_request_step_def float_to_bool_def
  requestCdevBySeverity_def hard_limit_target_def max_state_of_def
  map_at_def map_set_at_def isnan_def fsub_def fgt_def fge_def Let_def fl_eval

lemma ex_second_iteration:
  "thermalWatcherCallbackFunc 2000 ex_files_2 10500 {''b''} ex_helper_1 =
     Inr (ex_helper_2, [(''cpu'', 3)], [ex_reading ''b'' 60 MODERATE], 2000)"
  by (simp add: loop_defs ex_defs)

lemma ex_helper_1_inv: "status_inv ex_helper_1"
  unfolding status_inv_def
proof (intro conjI allI impI)
  show "distinct (map fst (sensor_status_map ex_helper_1))"
    by (simp add: ex_helper_1_def)
  show "distinct (map fst (cdev_status_map ex_helper_1))"
    by (simp add: ex_helper_1_def)
  show "distinct (map fst req)" if "map_of (cdev_status_map ex_helper_1) c = Some req" for c req
    using that by (auto simp add: ex_helper_1_def split: if_splits)
  show "\<exists>st. map_of (sensor_status_map ex_helper_1) n = Some st \<and> v = sensor_request st c"
    if "request_entry (cdev_status_map ex_helper_1) c n = Some v" for c n v
    using that
    by (auto simp add: ex_helper_1_def request_entry_def sensor_request_def
          request_or_zero_def ex_status_a_def ex_status_b_def split: if_splits)
  show "request_entry (cdev_status_map ex_helper_1) c n \<noteq> None"
    if "map_of (sensor_status_map ex_helper_1) n = Some st"
      "c \<in> fst ` set (pid_request_map st) \<union> fst ` set (hard_limit_request_map st)"
    for n st c
    using that
    by (auto simp add: ex_helper_1_def request_entry_def ex_status_a_def ex_status_b_def
          split: if_splits)
qed

theorem written_state_is_max_request_witness:
  "cdev_aggregate (sensor_status_map ex_helper_2) ''cpu'' = 3 \<and> status_inv ex_helper_2"
  using written_state_is_max_request [OF ex_second_iteration ex_helper_1_inv]
  by simp

subsection \<open>Which devices are written\<close>







subsection \<open>The constructor leaves the status maps consistent\<close>

lemma set_update_cases:
  assumes "p \<in> set (AList.update k v al)"
  shows "p = (k, v) \<or> p \<in> set al"
  using assms by (induction al) (auto split: if_splits)

lemma set_map_index_update:
  assumes "p \<in> set (map_index_update d f k m)"
  shows "p \<in> set m \<or> (p = (k, f d) \<and> map_of m k = None)
           \<or> (\<exists>x. (k, x) \<in> set m \<and> p = (k, f x))"
proof -
  from assms
  have "p \<in> set m \<or> p = (k, f (case map_of m k of None \<Rightarrow> d | Some v \<Rightarrow> v))"
    unfolding map_index_update_def by (auto dest: set_update_cases)
  then show ?thesis
  proof
    assume "p \<in> set m" then show ?thesis by simp
  next
    assume p: "p = (k, f (case map_of m k of None \<Rightarrow> d | Some v \<Rightarrow> v))"
    show ?thesis
    proof (cases "map_of m k")
      case None
      with p show ?thesis by simp
    next
      case (Some x)
      then have "(k, x) \<in> set m" by (rule map_of_SomeD)
      with p Some show ?thesis by auto
    qed
  qed
qed

lemma zero_update:
  assumes "\<forall>q \<in> set m. snd q = (0::int)"
  shows "\<forall>q \<in> set (AList.update k 0 m). snd q = 0"
proof
  fix q assume "q \<in> set (AList.update k 0 m)"
  from set_update_cases [OF this] assms show "snd q = 0" by auto
qed

lemma fresh_requests_update:
  assumes "\<forall>p \<in> set csm. distinct (map fst (snd p)) \<and> (\<forall>q \<in> set (snd p). snd q = (0::int))"
  shows "\<forall>p \<in> set (map_index_update [] (AList.update name 0) c csm).
           distinct (map fst (snd p)) \<and> (\<forall>q \<in> set (snd p). snd q = 0)"
proof
  fix p assume "p \<in> set (map_index_update [] (AList.update name 0) c csm)"
  from set_map_index_update [OF this]
  show "distinct (map fst (snd p)) \<and> (\<forall>q \<in> set (snd p). snd q = 0)"
  proof (elim disjE conjE exE)
    assume "p \<in> set csm" with assms show ?thesis by blast
  next
    assume "p = (c, AList.update name 0 [])" then show ?thesis by simp
  next
    fix x assume x: "(c, x) \<in> set csm" and p: "p = (c, AList.update name 0 x)"
    from assms x have "distinct (map fst x)" "\<forall>q \<in> set x. snd q = 0" by auto
    with p show ?thesis by (simp add: distinct_update zero_update)
  qed
qed

lemma fresh_status_update:
  assumes old: "\<forall>p \<in> set ssm.
           (\<forall>q \<in> set (pid_request_map (snd p)). snd q = 0)
           \<and> (\<forall>q \<in> set (hard_limit_request_map (snd p)). snd q = 0)"
    and f: "\<And>st. (\<forall>q \<in> set (pid_request_map st). snd q = 0)
                \<and> (\<forall>q \<in> set (hard_limit_request_map st). snd q = 0)
              \<Longrightarrow> (\<forall>q \<in> set (pid_request_map (f st)). snd q = 0)
                \<and> (\<forall>q \<in> set (hard_limit_request_map (f st)). snd q = 0)"
  shows "\<forall>p \<in> set (map_index_update initial_SensorStatus f name ssm).
           (\<forall>q \<in> set (pid_request_map (snd p)). snd q = 0)
           \<and> (\<forall>q \<in> set (hard_limit_request_map (snd p)). snd q = 0)"
proof
  fix p assume "p \<in> set (map_index_update initial_SensorStatus f name ssm)"
  from set_map_index_update [OF this]
  show "(\<forall>q \<in> set (pid_request_map (snd p)). snd q = 0)
           \<and> (\<forall>q \<in> set (hard_limit_request_map (snd p)). snd q = 0)"
  proof (elim disjE conjE exE)
    assume "p \<in> set ssm" with old show ?thesis by blast
  next
    assume p: "p = (name, f initial_SensorStatus)"
    have "(\<forall>q \<in> set (pid_request_map initial_SensorStatus). snd q = 0)
          \<and> (\<forall>q \<in> set (hard_limit_request_map initial_SensorStatus). snd q = 0)"
      by (simp add: initial_SensorStatus_def)
    from f [OF this] p show ?thesis by simp
  next
    fix x assume x: "(name, x) \<in> set ssm" and p: "p = (name, f x)"
    from old x have "(\<forall>q \<in> set (pid_request_map x). snd q = 0)
          \<and> (\<forall>q \<in> set (hard_limit_request_map x). snd q = 0)"
      by fastforce
    from f [OF this] p show ?thesis by simp
  qed
qed

lemma ctor_cdev_request_fresh:
  assumes "ctor_cdev_request cim name c maps = Inr maps'" and "fresh_maps maps"
  shows "fresh_maps maps'"
proof -
  note m' = ctor_cdev_request_result [OF assms(1)]
  from assms(2) have 1: "distinct (map fst (fst maps))"
    and 2: "\<forall>p \<in> set (fst maps).
           (\<forall>q \<in> set (pid_request_map (snd p)). snd q = 0)
           \<and> (\<forall>q \<in> set (hard_limit_request_map (snd p)). snd q = 0)"
    and 3: "\<forall>p \<in> set (snd maps). distinct (map fst (snd p)) \<and> (\<forall>q \<in> set (snd p). snd q = 0)"
    by (simp_all add: fresh_maps_def)
  have "\<forall>p \<in> set (fst maps').
           (\<forall>q \<in> set (pid_request_map (snd p)). snd q = 0)
           \<and> (\<forall>q \<in> set (hard_limit_request_map (snd p)). snd q = 0)"
    unfolding m' fst_conv
    by (rule fresh_status_update [OF 2]) (auto intro: zero_update [rule_format])
  moreover have "\<forall>p \<in> set (snd maps').
      distinct (map fst (snd p)) \<and> (\<forall>q \<in> set (snd p). snd q = 0)"
    unfolding m' snd_conv by (rule fresh_requests_update [OF 3])
  moreover have "distinct (map fst (fst maps'))"
    unfolding m' fst_conv using 1 by (rule distinct_map_index_update)
  ultimately show ?thesis by (simp add: fresh_maps_def)
qed

lemma ctor_limit_info_fresh:
  assumes "ctor_limit_info cim name lp maps = Inr maps'" and "fresh_maps maps"
  shows "fresh_maps maps'"
proof -
  note m' = ctor_limit_info_result [OF assms(1)]
  from assms(2) have 1: "distinct (map fst (fst maps))"
    and 2: "\<forall>p \<in> set (fst maps).
           (\<forall>q \<in> set (pid_request_map (snd p)). snd q = 0)
           \<and> (\<forall>q \<in> set (hard_limit_request_map (snd p)). snd q = 0)"
    and 3: "\<forall>p \<in> set (snd maps). distinct (map fst (snd p)) \<and> (\<forall>q \<in> set (snd p). snd q = 0)"
    by (simp_all add: fresh_maps_def)
  have "\<forall>p \<in> set (fst maps').
           (\<forall>q \<in> set (pid_request_map (snd p)). snd q = 0)
           \<and> (\<forall>q \<in> set (hard_limit_request_map (snd p)). snd q = 0)"
    unfolding m' fst_conv
    by (rule fresh_status_update [OF 2]) (auto intro: zero_update [rule_format])
  moreover have "\<forall>p \<in> set (snd maps').
      distinct (map fst (snd p)) \<and> (\<forall>q \<in> set (snd p). snd q = 0)"
    unfolding m' snd_conv by (rule fresh_requests_update [OF 3])
  moreover have "distinct (map fst (fst maps'))"
    unfolding m' fst_conv using 1 by (rule distinct_map_index_update)
  ultimately show ?thesis by (simp add: fresh_maps_def)
qed

lemma efold_preserves:
  assumes "efold f xs s = Inr s'" and "P s"
    and "\<And>x s s'. f x s = Inr s' \<Longrightarrow> P s \<Longrightarrow> P s'"
  shows "P s'"
  using assms(1,2)
proof (induction xs arbitrary: s)
  case Nil
  then show ?case by simp
next
  case (Cons x xs)
  from Cons.prems(1) obtain s1 where "f x s = Inr s1" "efold f xs s1 = Inr s'"
    by (auto split: sum.splits)
  with Cons.IH assms(3) Cons.prems(2) show ?case by blast
qed

lemma ctor_sensor_fresh:
  assumes "ctor_sensor cim x maps = Inr maps'" and "fresh_maps maps"
  shows "fresh_maps maps'"
proof -
  let ?m0 = "(AList.update (fst x) initial_SensorStatus (fst maps), snd maps)"
  from assms(1) obtain m1 where
    a: "efold (ctor_cdev_request cim (fst x)) (cdev_request (throttling_info (snd x))) ?m0
          = Inr m1"
    and b: "efold (ctor_limit_info cim (fst x)) (limit_info (throttling_info (snd x))) m1
          = Inr maps'"
    by (auto simp add: ctor_sensor_def split: sum.splits)
  have "\<forall>p \<in> set (AList.update (fst x) initial_SensorStatus (fst maps)).
           (\<forall>q \<in> set (pid_request_map (snd p)). snd q = 0)
           \<and> (\<forall>q \<in> set (hard_limit_request_map (snd p)). snd q = 0)"
  proof
    fix p assume "p \<in> set (AList.update (fst x) initial_SensorStatus (fst maps))"
    then have "p = (fst x, initial_SensorStatus) \<or> p \<in> set (fst maps)"
      by (rule set_update_cases)
    with assms(2)
    show "(\<forall>q \<in> set (pid_request_map (snd p)). snd q = 0)
           \<and> (\<forall>q \<in> set (hard_limit_request_map (snd p)). snd q = 0)"
      by (auto simp add: fresh_maps_def initial_SensorStatus_def)
  qed
  with assms(2) have "fresh_maps ?m0"
    by (simp add: fresh_maps_def distinct_update)
  from efold_preserves [where P = fresh_maps, OF a this ctor_cdev_request_fresh]
  have "fresh_maps m1" .
  from efold_preserves [where P = fresh_maps, OF b this ctor_limit_info_fresh]
  show ?thesis .
qed

lemma sensor_request_fresh:
  assumes "\<forall>q \<in> set (pid_request_map st). snd q = 0"
    and "\<forall>q \<in> set (hard_limit_request_map st). snd q = 0"
  shows "sensor_request st c = 0"
proof -
  have "request_or_zero m c = 0" if "\<forall>q \<in> set m. snd q = 0" for m
  proof (cases "map_of m c")
    case None
    then show ?thesis by (simp add: request_or_zero_def)
  next
    case (Some v)
    then have "(c, v) \<in> set m" by (rule map_of_SomeD)
    with that have "v = 0" by fastforce
    with Some show ?thesis by (simp add: request_or_zero_def)
  qed
  with assms show ?thesis by (simp add: sensor_request_def)
qed

lemma ctor_maps_status_inv:
  assumes inv: "ctor_inv seen (ssm, csm)" and fresh: "fresh_maps (ssm, csm)"
  shows "status_inv \<lparr>cooling_device_info_map = cim, sensor_info_map = sim,
                       sensor_status_map = ssm, cdev_status_map = csm\<rparr>"
proof -
  from inv have k1: "fst ` set ssm = fst ` set seen"
    and k2: "\<And>n info. (n, info) \<in> set seen \<Longrightarrow>
            pid_keys ssm n = set (cdev_request (throttling_info info))
            \<and> limit_keys ssm n = fst ` set (limit_info (throttling_info info))"
    and k3: "distinct (map fst csm)"
    and k5: "\<And>c. request_keys csm c
              = {n. \<exists>info. (n, info) \<in> set seen \<and> c \<in> set (sensor_cdevs info)}"
    by (simp_all add: ctor_inv_def)
  from fresh have f1: "distinct (map fst ssm)"
    and f2: "\<And>p. p \<in> set ssm \<Longrightarrow>
           (\<forall>q \<in> set (pid_request_map (snd p)). snd q = 0)
           \<and> (\<forall>q \<in> set (hard_limit_request_map (snd p)). snd q = 0)"
    and f3: "\<And>p. p \<in> set csm \<Longrightarrow> distinct (map fst (snd p)) \<and> (\<forall>q \<in> set (snd p). snd q = 0)"
    by (simp_all add: fresh_maps_def)
  have n3: "distinct (map fst req)" if "map_of csm c = Some req" for c req
  proof -
    from that have "(c, req) \<in> set csm" by (rule map_of_SomeD)
    from f3 [OF this] show ?thesis by simp
  qed
  have n4: "\<exists>st. map_of ssm n = Some st \<and> v = sensor_request st c"
    if e: "request_entry csm c n = Some v" for c n v
  proof -
    from e obtain req where req: "map_of csm c = Some req" and v: "map_of req n = Some v"
      by (auto simp add: request_entry_def split: option.splits)
    from req have "(c, req) \<in> set csm" by (rule map_of_SomeD)
    from f3 [OF this] map_of_SomeD [OF v] have v0: "v = 0" by fastforce
    from v have "n \<in> fst ` set req" by (metis map_of_eq_None_iff option.distinct(1))
    with req have "n \<in> request_keys csm c" by (simp add: request_keys_def)
    with k5 k1 have "n \<in> fst ` set ssm" by force
    then obtain st where st: "map_of ssm n = Some st"
      by (metis map_of_eq_None_iff not_Some_eq)
    then have "(n, st) \<in> set ssm" by (rule map_of_SomeD)
    from f2 [OF this] have "sensor_request st c = 0"
      by (intro sensor_request_fresh) simp_all
    with st v0 show ?thesis by simp
  qed
  have n5: "request_entry csm c n \<noteq> None"
    if m: "map_of ssm n = Some st"
      and c: "c \<in> fst ` set (pid_request_map st) \<union> fst ` set (hard_limit_request_map st)"
    for n st c
  proof -
    from m have "n \<in> fst ` set ssm" by (metis map_of_eq_None_iff option.distinct(1))
    with k1 obtain info where info: "(n, info) \<in> set seen" by force
    from k2 [OF info] m c have "c \<in> set (sensor_cdevs info)"
      by (auto simp add: pid_keys_def limit_keys_def sensor_cdevs_def)
    with info k5 have "n \<in> request_keys csm c" by blast
    then obtain req where req: "map_of csm c = Some req" and "n \<in> fst ` set req"
      by (cases "map_of csm c") (simp_all add: request_keys_def)
    then have "map_of req n \<noteq> None" by (simp add: map_of_eq_None_iff)
    with req show ?thesis by (simp add: request_entry_def)
  qed
  show ?thesis
    unfolding status_inv_def using f1 k3 n3 n4 n5 by simp
qed

lemma ThermalHelper_ctor_status_inv:
  assumes "ThermalHelper_ctor cim sim = Inr h" and "distinct (map fst sim)"
  shows "status_inv h"
proof -
  from assms(1) obtain maps where
    run: "efold (ctor_sensor cim) sim ([], []) = Inr maps"
    and h: "h = \<lparr>cooling_device_info_map = cim, sensor_info_map = sim,
                 sensor_status_map = fst maps, cdev_status_map = snd maps\<rparr>"
    by (auto simp add: ThermalHelper_ctor_def split: sum.splits)
  have "fresh_maps ([], [])" by (simp add: fresh_maps_def)
  from efold_preserves [where P = fresh_maps, OF run this ctor_sensor_fresh]
  have fresh: "fresh_maps (fst maps, snd maps)" by simp
  from ctor_inv_loop [OF run ctor_inv_empty] assms(2)
  have "ctor_inv sim (fst maps, snd maps)" by simp
  from ctor_maps_status_inv [OF this fresh] show ?thesis by (simp only: h)
qed

end
